theory Spec2Isabelle
  imports Main "HOL-Library.Char_ord" "HOL-Library.List_Lexorder" "HOL-Library.Product_Lexorder"
    "HOL-Library.AList" "HOL-Library.Multiset" "HOL-Library.Sublist"
begin

section \<open>Python values used by LedgerLite\<close>

text \<open>
  A Python \<open>str\<close> is modelled as a \<open>string\<close> whose characters are the code points
  0 to 255. On these, the decimal digits known to \<open>\d\<close>, \<open>int\<close> and \<open>Decimal\<close> are
  the ASCII digits, and the white space removed by \<open>str.strip\<close>, \<open>int\<close> and \<open>Decimal\<close>
  is the set \<open>is_space\<close> below. Python integers are \<open>int\<close>. An exception that leaves a
  function is the \<open>Inl\<close> of a sum type.
\<close>

datatype py_error = ValueError | OverflowError | InvalidOperation

definition then_do :: "py_error + 'a \<Rightarrow> ('a \<Rightarrow> py_error + 'b) \<Rightarrow> py_error + 'b" where
  "then_do r f = (case r of Inl e \<Rightarrow> Inl e | Inr v \<Rightarrow> f v)"

definition is_digit :: "char \<Rightarrow> bool" where
  "is_digit c = (c \<in> set ''0123456789'')"

definition digit_val :: "char \<Rightarrow> int" where
  "digit_val c = int (of_char c) - 48"

definition is_space :: "char \<Rightarrow> bool" where
  "is_space c = (c \<in> set [CHR 0x09, CHR 0x0A, CHR 0x0B, CHR 0x0C, CHR 0x0D,
     CHR 0x1C, CHR 0x1D, CHR 0x1E, CHR 0x1F, CHR 0x20, CHR 0x85, CHR 0xA0])"

text \<open>\<open>s.strip()\<close>\<close>

definition strip :: "string \<Rightarrow> string" where
  "strip s = rev (dropWhile is_space (rev (dropWhile is_space s)))"

text \<open>\<open>s.split(sep)\<close> for a separator of one character: always at least one part.\<close>

fun split_on :: "char \<Rightarrow> string \<Rightarrow> string list" where
  "split_on sep [] = [[]]"
| "split_on sep (c # cs) =
     (if c = sep then [] # split_on sep cs
      else (case split_on sep cs of [] \<Rightarrow> [[c]] | p # ps \<Rightarrow> (c # p) # ps))"

text \<open>\<open>s.replace(c, "")\<close> for a pattern of one character.\<close>

definition remove_char :: "char \<Rightarrow> string \<Rightarrow> string" where
  "remove_char c s = filter (\<lambda>x. x \<noteq> c) s"

text \<open>
  \<open>int(s)\<close> in base ten: white space around the literal is dropped, one sign is allowed,
  and the digits may be grouped by single underscores. Anything else raises ValueError.
\<close>

fun int_body_ok :: "string \<Rightarrow> bool" where
  "int_body_ok [] = False"
| "int_body_ok [c] = is_digit c"
| "int_body_ok (c # d # cs) =
     (is_digit c \<and> (if d = CHR ''_'' then int_body_ok cs else int_body_ok (d # cs)))"

definition digits_value :: "string \<Rightarrow> int" where
  "digits_value s = foldl (\<lambda>acc c. acc * 10 + digit_val c) 0 s"

definition py_int :: "string \<Rightarrow> py_error + int" where
  "py_int s =
     (let t = strip s;
          neg = (t \<noteq> [] \<and> hd t = CHR ''-'');
          body = (if t \<noteq> [] \<and> (hd t = CHR ''-'' \<or> hd t = CHR ''+'') then tl t else t)
      in if int_body_ok body
         then Inr ((if neg then - 1 else 1) * digits_value (remove_char CHR ''_'' body))
         else Inl ValueError)"

section \<open>Dates: the part of \<open>datetime\<close> the program uses\<close>

text \<open>
  A naive \<open>datetime\<close> is its proleptic Gregorian ordinal (day 1 is 0001-01-01, as
  \<open>toordinal\<close> counts) and the microseconds since midnight; a \<open>date\<close> is the ordinal.
  Comparison of datetimes is comparison of these pairs. The ordinal of a calendar date is
  computed as the library does, from the days before the year and before the month.
\<close>

record datetime =
  day_ord :: int
  tod :: nat

definition is_leap :: "int \<Rightarrow> bool" where
  "is_leap y = (y mod 4 = 0 \<and> (y mod 100 \<noteq> 0 \<or> y mod 400 = 0))"

definition DAYS_IN_MONTH :: "int list" where
  "DAYS_IN_MONTH = [-1, 31, 28, 31, 30, 31, 30, 31, 31, 30, 31, 30, 31]"

definition DAYS_BEFORE_MONTH :: "int list" where
  "DAYS_BEFORE_MONTH = [-1, 0, 31, 59, 90, 120, 151, 181, 212, 243, 273, 304, 334]"

definition days_in_month :: "int \<Rightarrow> int \<Rightarrow> int" where
  "days_in_month y m = (if m = 2 \<and> is_leap y then 29 else DAYS_IN_MONTH ! nat m)"

definition days_before_year :: "int \<Rightarrow> int" where
  "days_before_year year = (let y = year - 1 in y * 365 + y div 4 - y div 100 + y div 400)"

definition days_before_month :: "int \<Rightarrow> int \<Rightarrow> int" where
  "days_before_month y m = DAYS_BEFORE_MONTH ! nat m + (if m > 2 \<and> is_leap y then 1 else 0)"

definition ymd2ord :: "int \<Rightarrow> int \<Rightarrow> int \<Rightarrow> int" where
  "ymd2ord y m d = days_before_year y + days_before_month y m + d"

definition MAXORDINAL :: int where
  "MAXORDINAL = 3652059"

text \<open>\<open>datetime(year, month, day)\<close>: midnight of that day; OverflowError for an argument
  that does not fit a C \<open>int\<close>, ValueError outside the calendar.\<close>

definition c_int :: "int \<Rightarrow> bool" where
  "c_int n = (- 2147483648 \<le> n \<and> n \<le> 2147483647)"

definition datetime_ymd :: "int \<Rightarrow> int \<Rightarrow> int \<Rightarrow> py_error + datetime" where
  "datetime_ymd y m d =
     (if \<not> (c_int y \<and> c_int m \<and> c_int d) then Inl OverflowError
      else if \<not> (1 \<le> y \<and> y \<le> 9999) then Inl ValueError
      else if \<not> (1 \<le> m \<and> m \<le> 12) then Inl ValueError
      else if \<not> (1 \<le> d \<and> d \<le> days_in_month y m) then Inl ValueError
      else Inr \<lparr>day_ord = ymd2ord y m d, tod = 0\<rparr>)"

text \<open>\<open>dt + timedelta(days=n)\<close> (and \<open>-\<close> for a negative \<open>n\<close>): OverflowError outside
  the years 1 to 9999.\<close>

definition add_days :: "datetime \<Rightarrow> int \<Rightarrow> py_error + datetime" where
  "add_days dt n =
     (let ord = day_ord dt + n
      in if 1 \<le> ord \<and> ord \<le> MAXORDINAL then Inr (dt\<lparr>day_ord := ord\<rparr>) else Inl OverflowError)"

definition dt_key :: "datetime \<Rightarrow> int \<times> nat" where
  "dt_key dt = (day_ord dt, tod dt)"

section \<open>Month tokens\<close>

text \<open>\<open>year, month_num = map(int, month.split("-"))\<close>: ValueError unless there are exactly
  two parts and both are integers.\<close>

definition parse_year_month :: "string \<Rightarrow> py_error + (int \<times> int)" where
  "parse_year_month month =
     (case split_on CHR ''-'' month of
        [a, b] \<Rightarrow> then_do (py_int a) (\<lambda>year. then_do (py_int b) (\<lambda>month_num. Inr (year, month_num)))
      | _ \<Rightarrow> Inl ValueError)"

text \<open>
  The lines that follow the conversion are the same in \<open>get_month_date_range\<close>, in both
  charts and in the dashboard page, and are written once here:
  \<^verbatim>\<open>
    start_date = datetime(year, month_num, 1)
    if month_num == 12:
        end_date = datetime(year + 1, 1, 1) - timedelta(days=1)
    else:
        end_date = datetime(year, month_num + 1, 1) - timedelta(days=1)
  \<close>
\<close>

definition calc_date_range :: "int \<Rightarrow> int \<Rightarrow> py_error + (datetime \<times> datetime)" where
  "calc_date_range year month_num =
     then_do (datetime_ymd year month_num 1) (\<lambda>start_date.
       then_do (if month_num = 12
                then then_do (datetime_ymd (year + 1) 1 1) (\<lambda>d. add_days d (- 1))
                else then_do (datetime_ymd year (month_num + 1) 1) (\<lambda>d. add_days d (- 1)))
         (\<lambda>end_date. Inr (start_date, end_date)))"

text \<open>\<open>get_month_date_range\<close> of \<open>utils/dates.py\<close>.\<close>

definition get_month_date_range :: "string \<Rightarrow> py_error + (datetime \<times> datetime)" where
  "get_month_date_range month =
     then_do (parse_year_month month) (\<lambda>(year, month_num). calc_date_range year month_num)"

text \<open>\<open>get_days_in_month\<close> of \<open>utils/dates.py\<close>: \<open>(end_date - start_date).days + 1\<close>.\<close>

definition get_days_in_month :: "string \<Rightarrow> py_error + int" where
  "get_days_in_month month =
     then_do (get_month_date_range month) (\<lambda>(start_date, end_date).
       Inr (day_ord end_date - day_ord start_date + 1))"

text \<open>
  \<open>re.match(r'^\d{4}-\d{2}$', month)\<close>: the items are matched from the start of the string,
  and \<open>$\<close> holds at the end of the string and also just before a newline that ends it.
\<close>

datatype re_item = Digit | Lit char

fun re_items :: "re_item list \<Rightarrow> string \<Rightarrow> string option" where
  "re_items [] s = Some s"
| "re_items (i # is) [] = None"
| "re_items (Digit # is) (c # cs) = (if is_digit c then re_items is cs else None)"
| "re_items (Lit l # is) (c # cs) = (if c = l then re_items is cs else None)"

text \<open>What one item of a pattern accepts; used to state what \<open>re_items\<close> matches.\<close>

fun item_ok :: "re_item \<Rightarrow> char \<Rightarrow> bool" where
  "item_ok Digit c = is_digit c"
| "item_ok (Lit l) c = (c = l)"

definition re_dollar :: "string \<Rightarrow> bool" where
  "re_dollar rest = (rest = [] \<or> rest = [CHR 0x0A])"

definition month_pattern :: "re_item list" where
  "month_pattern = replicate 4 Digit @ [Lit CHR ''-''] @ replicate 2 Digit"

definition re_match_month :: "string \<Rightarrow> bool" where
  "re_match_month s = (case re_items month_pattern s of None \<Rightarrow> False | Some rest \<Rightarrow> re_dollar rest)"

text \<open>\<open>validate_month_string\<close> of \<open>utils/validators.py\<close>; the ValueError of the
  conversion is caught.\<close>

definition validate_month_string :: "string \<Rightarrow> py_error + (bool \<times> string option)" where
  "validate_month_string month =
     (if month = [] then Inr (False, Some ''Month cannot be empty'')
      else if \<not> re_match_month month then Inr (False, Some ''Invalid month format. Use YYYY-MM'')
      else (case then_do (parse_year_month month) (\<lambda>(year, month_num).
                   if \<not> (1 \<le> month_num \<and> month_num \<le> 12)
                   then Inr (False, Some ''Month must be between 01 and 12'')
                   else if \<not> (1900 \<le> year \<and> year \<le> 2100)
                   then Inr (False, Some ''Year must be between 1900 and 2100'')
                   else Inr (True, None))
            of Inl ValueError \<Rightarrow> Inr (False, Some ''Invalid month format. Use YYYY-MM'')
             | Inl e \<Rightarrow> Inl e
             | Inr r \<Rightarrow> Inr r))"

section \<open>Amounts: the part of \<open>Decimal\<close> that \<open>validate_amount\<close> uses\<close>

text \<open>
  A \<open>Decimal\<close> is a sign, a coefficient and an exponent, or an infinity, or a NaN (quiet
  or signalling, with its diagnostic digits). \<open>Decimal(s)\<close> drops the white space around
  \<open>s\<close> and every underscore, and then reads
  \<^verbatim>\<open>[sign] (digits [. [digits]] | . digits) [E [sign] digits]\<close>, or \<open>Inf\<close>,
  \<open>Infinity\<close>, \<open>NaN\<close>, \<open>sNaN\<close> in any case; anything else raises InvalidOperation.
\<close>

datatype decimal = Finite bool int int | Infinite bool | NaN bool bool int

definition ascii_lower :: "char \<Rightarrow> char" where
  "ascii_lower c = (if CHR ''A'' \<le> c \<and> c \<le> CHR ''Z'' then char_of (of_char c + (32::nat)) else c)"

definition all_digits :: "string \<Rightarrow> bool" where
  "all_digits s = (s \<noteq> [] \<and> list_all is_digit s)"

text \<open>The exponent part: empty, or \<open>E\<close>, an optional sign and at least one digit.\<close>

definition parse_exponent :: "string \<Rightarrow> int option" where
  "parse_exponent s =
     (case s of
        [] \<Rightarrow> Some 0
      | e # r \<Rightarrow>
          if e = CHR ''e'' \<or> e = CHR ''E'' then
            (case r of
               [] \<Rightarrow> None
             | g # ds \<Rightarrow>
                 if g = CHR ''-'' then (if all_digits ds then Some (- digits_value ds) else None)
                 else if g = CHR ''+'' then (if all_digits ds then Some (digits_value ds) else None)
                 else (if all_digits r then Some (digits_value r) else None))
          else None)"

text \<open>The number without its sign: coefficient and exponent.\<close>

definition parse_number :: "string \<Rightarrow> (int \<times> int) option" where
  "parse_number s =
     (let intpart = takeWhile is_digit s;
          rest = dropWhile is_digit s;
          has_point = (rest \<noteq> [] \<and> hd rest = CHR ''.'');
          fracpart = (if has_point then takeWhile is_digit (tl rest) else []);
          after = (if has_point then dropWhile is_digit (tl rest) else rest)
      in if intpart = [] \<and> fracpart = [] then None
         else (case parse_exponent after of
                 None \<Rightarrow> None
               | Some e \<Rightarrow> Some (digits_value (intpart @ fracpart), e - int (length fracpart))))"

definition parse_nan :: "string \<Rightarrow> (bool \<times> int) option" where
  "parse_nan l =
     (let signalling = (l \<noteq> [] \<and> hd l = CHR ''s'');
          r = (if signalling then tl l else l)
      in if take 3 r = ''nan'' \<and> list_all is_digit (drop 3 r)
         then Some (signalling, digits_value (drop 3 r)) else None)"

text \<open>
  The conversion is exact, within the limits of the \<open>decimal\<close> module on a 64-bit
  platform: the adjusted exponent, the exponent plus the number of digits of the
  coefficient less one, is at most 999999999999999999, and the exponent is at least
  -1999999999999999997; a number outside them raises InvalidOperation.
\<close>

function num_digits :: "int \<Rightarrow> int" where
  "num_digits n = (if n < 10 then 1 else 1 + num_digits (n div 10))"
  by pat_completeness auto
termination
  by (relation "measure nat") auto

definition decimal_fits :: "int \<Rightarrow> int \<Rightarrow> bool" where
  "decimal_fits coeff e =
     (e + num_digits coeff - 1 \<le> 999999999999999999 \<and> - 1999999999999999997 \<le> e)"

definition Decimal_str :: "string \<Rightarrow> py_error + decimal" where
  "Decimal_str v =
     (let s = remove_char CHR ''_'' (strip v);
          neg = (s \<noteq> [] \<and> hd s = CHR ''-'');
          body = (if s \<noteq> [] \<and> (hd s = CHR ''-'' \<or> hd s = CHR ''+'') then tl s else s)
      in case parse_number body of
           Some (coeff, e) \<Rightarrow>
             if decimal_fits coeff e then Inr (Finite neg coeff e) else Inl InvalidOperation
         | None \<Rightarrow>
             (let l = map ascii_lower body
              in if l = ''inf'' \<or> l = ''infinity'' then Inr (Infinite neg)
                 else (case parse_nan l of
                         Some (signalling, diag) \<Rightarrow> Inr (NaN neg signalling diag)
                       | None \<Rightarrow> Inl InvalidOperation)))"

text \<open>\<open>amount <= 0\<close>: an ordering comparison with a NaN raises InvalidOperation.\<close>

definition decimal_le_zero :: "decimal \<Rightarrow> py_error + bool" where
  "decimal_le_zero d =
     (case d of
        Finite neg coeff e \<Rightarrow> Inr (neg \<or> coeff = 0)
      | Infinite neg \<Rightarrow> Inr neg
      | NaN neg signalling diag \<Rightarrow> Inl InvalidOperation)"

text \<open>
  \<open>validate_amount\<close> of \<open>utils/validators.py\<close>. The pound sign is the character 0xA3;
  the euro sign is beyond the characters of the model, so that its removal changes
  nothing and is left out. The \<open>except InvalidOperation\<close> clause catches that exception
  and no other.
\<close>

definition validate_amount :: "string \<Rightarrow> py_error + (bool \<times> decimal option \<times> string option)" where
  "validate_amount amount_str =
     (if amount_str = [] \<or> strip amount_str = []
      then Inr (False, None, Some ''Amount cannot be empty'')
      else (case (let cleaned = strip (remove_char CHR '','' (remove_char (CHR 0xA3)
                                  (remove_char CHR ''$'' amount_str)))
                  in then_do (Decimal_str cleaned) (\<lambda>amount.
                       then_do (decimal_le_zero amount) (\<lambda>le.
                         if le then Inr (False, None, Some ''Amount must be greater than zero'')
                         else Inr (True, Some amount, None))))
            of Inl InvalidOperation \<Rightarrow> Inr (False, None, Some ''Invalid amount format'')
             | Inl e \<Rightarrow> Inl e
             | Inr r \<Rightarrow> Inr r))"

section \<open>The entity store and the repositories\<close>

text \<open>
  The tables of \<open>data/models.py\<close> as lists of rows, in the order of insertion. An amount
  is a \<open>Numeric(15, 2)\<close> column; a row read from the store carries it as a \<open>Decimal\<close> with
  two places, which is counted here in hundredths, and Python adds such values exactly.
  The store holds the tables the aggregation and the two \<open>delete\<close> operations read or
  write; no operation of the program creates an attachment row.
\<close>

record category =
  cat_id :: int
  cat_name :: string
  cat_type :: string
  color_hex :: string
  parent_id :: "int option"

record transaction =
  txn_id :: int
  account_id :: int
  category_id :: int
  txn_date :: datetime
  amount :: int
  txn_type :: string
  txn_note :: "string option"

record budget =
  budget_id :: int
  budget_category_id :: int
  budget_month :: string
  amount_cap :: int

record store =
  categories :: "category list"
  transactions :: "transaction list"
  budgets :: "budget list"

text \<open>\<open>ORDER BY date DESC\<close>; \<open>LIMIT\<close> applies when the argument is given and not zero
  (\<open>if limit:\<close>), and a negative limit is no limit.\<close>

definition order_by_date_desc :: "transaction list \<Rightarrow> transaction list" where
  "order_by_date_desc rows = rev (sort_key (\<lambda>t. dt_key (txn_date t)) rows)"

definition apply_limit :: "int option \<Rightarrow> 'a list \<Rightarrow> 'a list" where
  "apply_limit limit rows =
     (case limit of None \<Rightarrow> rows | Some n \<Rightarrow> if n > 0 then take (nat n) rows else rows)"

text \<open>\<open>CategoryRepository.get_by_type\<close>\<close>

definition get_by_type :: "store \<Rightarrow> string \<Rightarrow> category list" where
  "get_by_type db category_type =
     sort_key cat_name (filter (\<lambda>c. cat_type c = category_type) (categories db))"

text \<open>\<open>TransactionRepository.get_by_id\<close>: \<open>.first()\<close> is the first row or \<open>None\<close>.\<close>

definition get_by_id :: "store \<Rightarrow> int \<Rightarrow> transaction option" where
  "get_by_id db transaction_id = find (\<lambda>t. txn_id t = transaction_id) (transactions db)"

text \<open>\<open>TransactionRepository.get_by_date_range\<close>\<close>

definition get_by_date_range :: "store \<Rightarrow> datetime \<Rightarrow> datetime \<Rightarrow> int option \<Rightarrow> transaction list" where
  "get_by_date_range db start_date end_date limit =
     apply_limit limit (order_by_date_desc
       (filter (\<lambda>t. dt_key start_date \<le> dt_key (txn_date t) \<and> dt_key (txn_date t) \<le> dt_key end_date)
          (transactions db)))"

text \<open>
  \<open>note ILIKE pattern\<close>, which the storage engine evaluates as
  \<open>lower(note) LIKE lower(pattern)\<close>: in a pattern \<open>%\<close> stands for any run of characters
  and \<open>_\<close> for any one character; a null note matches nothing.
\<close>

fun like_match :: "string \<Rightarrow> string \<Rightarrow> bool" where
  "like_match [] s = (s = [])"
| "like_match (p # ps) [] = (p = CHR ''%'' \<and> like_match ps [])"
| "like_match (p # ps) (c # cs) =
     (if p = CHR ''%'' then like_match ps (c # cs) \<or> like_match (p # ps) cs
      else if p = CHR ''_'' then like_match ps cs
      else p = c \<and> like_match ps cs)"

definition ilike :: "string option \<Rightarrow> string \<Rightarrow> bool" where
  "ilike column pattern =
     (case column of None \<Rightarrow> False | Some v \<Rightarrow> like_match (map ascii_lower pattern) (map ascii_lower v))"

text \<open>\<open>TransactionRepository.search\<close>\<close>

definition search :: "store \<Rightarrow> string \<Rightarrow> int option \<Rightarrow> transaction list" where
  "search db search_term limit =
     apply_limit limit (order_by_date_desc
       (filter (\<lambda>t. ilike (txn_note t) (''%'' @ search_term @ ''%'')) (transactions db)))"

text \<open>
  \<open>func.sum\<close> over the selected rows is the aggregate \<open>SUM\<close> of the storage engine: null
  when there is no row. What the engine computes from the amounts of one or more rows is
  not in the program (the engine adds in its own arithmetic and the result is read back
  with the two places of the column), so it is a parameter: \<open>engine_sum xs\<close> is the total
  the engine returns for the amounts \<open>xs\<close>.
\<close>

definition sql_sum :: "(int list \<Rightarrow> int) \<Rightarrow> int list \<Rightarrow> int option" where
  "sql_sum engine_sum xs = (if xs = [] then None else Some (engine_sum xs))"

text \<open>\<open>x or Decimal("0")\<close>\<close>

definition or_zero :: "int option \<Rightarrow> int" where
  "or_zero x = (case x of None \<Rightarrow> 0 | Some v \<Rightarrow> if v = 0 then 0 else v)"

text \<open>\<open>TransactionRepository.get_totals_by_type\<close>\<close>

definition get_totals_by_type ::
  "(int list \<Rightarrow> int) \<Rightarrow> store \<Rightarrow> datetime option \<Rightarrow> datetime option \<Rightarrow> int \<times> int" where
  "get_totals_by_type engine_sum db start_date end_date =
     (let query = transactions db;
          query = (case start_date of None \<Rightarrow> query
                   | Some s \<Rightarrow> filter (\<lambda>t. dt_key s \<le> dt_key (txn_date t)) query);
          query = (case end_date of None \<Rightarrow> query
                   | Some e \<Rightarrow> filter (\<lambda>t. dt_key (txn_date t) \<le> dt_key e) query);
          income = or_zero (sql_sum engine_sum
                     (map amount (filter (\<lambda>t. txn_type t = ''income'') query)));
          expense = or_zero (sql_sum engine_sum
                      (map amount (filter (\<lambda>t. txn_type t = ''expense'') query)))
      in (income, expense))"

text \<open>\<open>TransactionRepository.delete\<close>: the row with the key of the object found is
  deleted and the change committed.\<close>

definition delete_transaction :: "store \<Rightarrow> int \<Rightarrow> store \<times> bool" where
  "delete_transaction db transaction_id =
     (case get_by_id db transaction_id of
        Some t \<Rightarrow> (db\<lparr>transactions := filter (\<lambda>r. txn_id r \<noteq> txn_id t) (transactions db)\<rparr>, True)
      | None \<Rightarrow> (db, False))"

text \<open>\<open>BudgetRepository.delete\<close>\<close>

definition delete_budget :: "store \<Rightarrow> int \<Rightarrow> store \<times> bool" where
  "delete_budget db bid =
     (case find (\<lambda>b. budget_id b = bid) (budgets db) of
        Some b \<Rightarrow> (db\<lparr>budgets := filter (\<lambda>r. budget_id r \<noteq> budget_id b) (budgets db)\<rparr>, True)
      | None \<Rightarrow> (db, False))"

section \<open>The aggregation of the charts\<close>

text \<open>A Python \<open>dict\<close> is an association list in insertion order; \<open>d[k] = v\<close> is
  \<open>AList.update k v d\<close>, which replaces the value of a key that is there and appends a
  new key at the end.\<close>

text \<open>\<open>CategoryBarChart.get_category_data\<close>\<close>

definition category_total :: "store \<Rightarrow> datetime \<Rightarrow> datetime \<Rightarrow> category \<Rightarrow> int" where
  "category_total db start_date end_date c =
     (let transactions = get_by_date_range db start_date end_date None;
          category_transactions =
            filter (\<lambda>t. category_id t = cat_id c \<and> txn_type t = ''expense'') transactions
      in sum_list (map amount category_transactions))"

definition get_category_data :: "store \<Rightarrow> string \<Rightarrow> py_error + (string \<times> int) list" where
  "get_category_data db month =
     then_do (parse_year_month month) (\<lambda>(year, month_num).
       then_do (calc_date_range year month_num) (\<lambda>(start_date, end_date).
         Inr (foldl (\<lambda>category_data c.
                  let total_amount = category_total db start_date end_date c
                  in if total_amount > 0 then AList.update (cat_name c) total_amount category_data
                     else category_data)
                [] (get_by_type db ''expense''))))"

text \<open>
  \<open>CategoryBarChart.update_data\<close>, from the data to the bars that are drawn:
  \<open>sorted(..., key=lambda x: x[1], reverse=True)\<close> is stable, and more than eight
  entries are cut to seven and the rest.
\<close>

definition update_data_bars :: "(string \<times> int) list \<Rightarrow> (string \<times> int) list" where
  "update_data_bars category_data =
     (let sorted_data = sort_key (\<lambda>x. - snd x) category_data
      in if length sorted_data > 8
         then (let top_categories = take 7 sorted_data;
                   other_amount = sum_list (map snd (drop 7 sorted_data))
               in if other_amount > 0 then top_categories @ [(''Other'', other_amount)]
                  else top_categories)
         else sorted_data)"

text \<open>\<open>MonthlyTrendChart.get_daily_data\<close>: the transactions are grouped by day, and the
  loop walks the days from the first to the last.\<close>

definition group_by_day :: "transaction list \<Rightarrow> (int \<times> transaction list) list" where
  "group_by_day txns =
     foldl (\<lambda>daily_transactions t.
              let d = day_ord (txn_date t)
              in AList.update d
                   ((case map_of daily_transactions d of None \<Rightarrow> [] | Some l \<Rightarrow> l) @ [t])
                   daily_transactions)
       [] txns"

definition day_net :: "transaction list \<Rightarrow> int" where
  "day_net day_transactions =
     sum_list (map amount (filter (\<lambda>t. txn_type t = ''income'') day_transactions))
     - sum_list (map amount (filter (\<lambda>t. txn_type t = ''expense'') day_transactions))"

function daily_loop ::
  "(int \<times> transaction list) list \<Rightarrow> int \<Rightarrow> int \<Rightarrow> (datetime \<times> int) list
     \<Rightarrow> py_error + (datetime \<times> int) list" where
  "daily_loop daily_transactions end_day current_date daily_data =
     (if current_date \<le> end_day then
        (let daily_net = (case map_of daily_transactions current_date of
                            Some day_transactions \<Rightarrow> day_net day_transactions
                          | None \<Rightarrow> 0);
             daily_data' = AList.update \<lparr>day_ord = current_date, tod = 0\<rparr> daily_net daily_data
         in if current_date + 1 \<le> MAXORDINAL
            then daily_loop daily_transactions end_day (current_date + 1) daily_data'
            else Inl OverflowError)
      else Inr daily_data)"
  by pat_completeness auto
termination
  by (relation "measure (\<lambda>(g, e, c, d). nat (e + 1 - c))") auto

definition get_daily_data :: "store \<Rightarrow> string \<Rightarrow> py_error + (datetime \<times> int) list" where
  "get_daily_data db month =
     then_do (parse_year_month month) (\<lambda>(year, month_num).
       then_do (calc_date_range year month_num) (\<lambda>(start_date, end_date).
         daily_loop (group_by_day (get_by_date_range db start_date end_date None))
           (day_ord end_date) (day_ord start_date) []))"

section \<open>Notions used to state the properties\<close>

text \<open>A transaction lies in an optional window when it is not before the start, if there is
  one, and not after the end, if there is one.\<close>

definition in_window :: "datetime option \<Rightarrow> datetime option \<Rightarrow> transaction \<Rightarrow> bool" where
  "in_window start_date end_date t =
     ((case start_date of None \<Rightarrow> True | Some s \<Rightarrow> dt_key s \<le> dt_key (txn_date t)) \<and>
      (case end_date of None \<Rightarrow> True | Some e \<Rightarrow> dt_key (txn_date t) \<le> dt_key e))"

text \<open>A small store: one expense category, one transaction of 42.50 on 2024-03-15 and one
  budget.\<close>

definition example_store :: store where
  "example_store =
     \<lparr>categories =
        [\<lparr>cat_id = 1, cat_name = ''Food'', cat_type = ''expense'', color_hex = ''#e74c3c'', parent_id = None\<rparr>],
      transactions =
        [\<lparr>txn_id = 1, account_id = 1, category_id = 1,
          txn_date = \<lparr>day_ord = ymd2ord 2024 3 15, tod = 0\<rparr>, amount = 4250,
          txn_type = ''expense'', txn_note = None\<rparr>],
      budgets =
        [\<lparr>budget_id = 1, budget_category_id = 1, budget_month = ''2024-03'', amount_cap = 10000\<rparr>]\<rparr>"

text \<open>A list of named amounts is descending when no amount is followed by a larger one.\<close>

definition descending :: "(string \<times> int) list \<Rightarrow> bool" where
  "descending xs = sorted (map (\<lambda>x. - snd x) xs)"

text \<open>Nine categories, one more than the chart draws.\<close>

definition nine_categories :: "(string \<times> int) list" where
  "nine_categories = [(''a'', 1), (''b'', 5), (''c'', 3), (''d'', 5), (''e'', 2), (''f'', 9), (''g'', 7),
     (''h'', 1), (''i'', 4)]"

text \<open>The month token \<open>YYYY-MM\<close> of the year \<open>y\<close> and the month \<open>m\<close>: four digits, a
  dash and two digits.\<close>

definition digit_char :: "int \<Rightarrow> char" where
  "digit_char k = ''0123456789'' ! nat k"

definition month_token :: "int \<Rightarrow> int \<Rightarrow> string" where
  "month_token y m =
     [digit_char (y div 1000 mod 10), digit_char (y div 100 mod 10), digit_char (y div 10 mod 10),
      digit_char (y mod 10), CHR ''-'', digit_char (m div 10 mod 10), digit_char (m mod 10)]"

text \<open>A calendar date: a month from 1 to 12 and a day of that month.\<close>

definition valid_date :: "int \<Rightarrow> int \<Rightarrow> int \<Rightarrow> bool" where
  "valid_date y m d = (1 \<le> m \<and> m \<le> 12 \<and> 1 \<le> d \<and> d \<le> days_in_month y m)"

text \<open>The amounts of the transactions of one type in a window, in the order of the table.\<close>

definition window_amounts :: "store \<Rightarrow> datetime option \<Rightarrow> datetime option \<Rightarrow> string \<Rightarrow> int list" where
  "window_amounts db start_date end_date ty =
     map amount (filter (\<lambda>t. in_window start_date end_date t \<and> txn_type t = ty) (transactions db))"

text \<open>A note contains a term, letter case apart, when the term in lower case is a run of
  consecutive characters of the note in lower case; the letters are those of ASCII, which
  are the ones the storage engine folds.\<close>

definition contains_ci :: "string \<Rightarrow> string \<Rightarrow> bool" where
  "contains_ci v search_term = sublist (map ascii_lower search_term) (map ascii_lower v)"

text \<open>A term without the two characters that a \<open>LIKE\<close> pattern reads as wildcards.\<close>

definition no_wildcard :: "string \<Rightarrow> bool" where
  "no_wildcard s = (CHR ''%'' \<notin> set s \<and> CHR ''_'' \<notin> set s)"

text \<open>Rows are in descending order of date when no row is followed by a later one.\<close>

definition date_descending :: "transaction list \<Rightarrow> bool" where
  "date_descending rows = sorted (rev (map (\<lambda>t. dt_key (txn_date t)) rows))"


section \<open>Properties\<close>

subsection \<open>The calendar\<close>


lemma month_cases:
  "1 \<le> m \<Longrightarrow> m \<le> 12 \<Longrightarrow>
   m = 1 \<or> m = 2 \<or> m = 3 \<or> m = 4 \<or> m = 5 \<or> m = 6 \<or> m = 7 \<or> m = 8 \<or> m = 9 \<or> m = 10 \<or> m = 11 \<or> m = (12::int)"
  by arith

lemma days_in_month_bounds:
  assumes "1 \<le> m" "m \<le> 12"
  shows "28 \<le> days_in_month y m \<and> days_in_month y m \<le> 31"
  using month_cases [OF assms] by (auto simp: days_in_month_def DAYS_IN_MONTH_def)

lemma days_before_month_step:
  assumes "1 \<le> m" "m < 12"
  shows "days_before_month y (m + 1) = days_before_month y m + days_in_month y m"
proof -
  from assms have "m = 1 \<or> m = 2 \<or> m = 3 \<or> m = 4 \<or> m = 5 \<or> m = 6 \<or> m = 7 \<or> m = 8 \<or> m = 9 \<or> m = 10 \<or> m = 11"
    by arith
  then show ?thesis
    by (auto simp: days_before_month_def days_in_month_def DAYS_BEFORE_MONTH_def DAYS_IN_MONTH_def)
qed

lemma div_pred:
  fixes y k :: int
  assumes "0 < k"
  shows "y div k - (y - 1) div k = (if y mod k = 0 then 1 else 0)"
proof (cases "y mod k = 0")
  case True
  have "y = k * (y div k)"
    using mult_div_mod_eq [of k y] True by simp
  then have "y - 1 = k * (y div k - 1) + (k - 1)"
    by (simp add: algebra_simps)
  then have "(y - 1) div k = y div k - 1"
    using assms by (intro int_div_pos_eq [where r = "k - 1"]) simp_all
  with True show ?thesis by simp
next
  case False
  have r: "0 < y mod k" "y mod k < k"
    using False assms pos_mod_sign [of k y] pos_mod_bound [of k y] by linarith+
  have "y - 1 = k * (y div k) + (y mod k - 1)" by simp
  then have "(y - 1) div k = y div k"
    using r by (intro int_div_pos_eq [where r = "y mod k - 1"]) simp_all
  with False show ?thesis by simp
qed
lemma mod_400_100: "(y::int) mod 400 = 0 \<Longrightarrow> y mod 100 = 0"
proof -
  assume "y mod 400 = 0"
  then have "400 dvd y" by (simp add: mod_eq_0_iff_dvd)
  moreover have "(100::int) dvd 400" by simp
  ultimately have "100 dvd y" by (rule dvd_trans [rotated])
  then show ?thesis by (simp add: mod_eq_0_iff_dvd)
qed
lemma mod_100_4: "(y::int) mod 100 = 0 \<Longrightarrow> y mod 4 = 0"
proof -
  assume "y mod 100 = 0"
  then have "100 dvd y" by (simp add: mod_eq_0_iff_dvd)
  moreover have "(4::int) dvd 100" by simp
  ultimately have "4 dvd y" by (rule dvd_trans [rotated])
  then show ?thesis by (simp add: mod_eq_0_iff_dvd)
qed

lemma leap_count:
  fixes a b c :: int
  assumes "a = (if p4 then 1 else 0)" "b = (if p100 then 1 else 0)" "c = (if p400 then 1 else 0)"
    and "p400 \<Longrightarrow> p100" "p100 \<Longrightarrow> p4"
  shows "365 + a - b + c = (if p4 \<and> (\<not> p100 \<or> p400) then 366 else 365)"
  using assms by (cases p4; cases p100; cases p400; simp)

lemma year_diff_linear:
  fixes A B y p q r p' q' r' :: int
  assumes "A = y * 365 + p - q + r" "B = (y - 1) * 365 + p' - q' + r'"
  shows "A - B = 365 + (p - p') - (q - q') + (r - r')"
  using assms by (simp add: algebra_simps)

lemma days_before_year_step:
  "days_before_year (y + 1) = days_before_year y + (if is_leap y then 366 else 365)"
proof -
  define a where "a = y div 4 - (y - 1) div 4"
  define b where "b = y div 100 - (y - 1) div 100"
  define c where "c = y div 400 - (y - 1) div 400"
  have "days_before_year (y + 1) = y * 365 + y div 4 - y div 100 + y div 400"
    unfolding days_before_year_def Let_def by (simp only: add_diff_cancel)
  moreover have "days_before_year y = (y - 1) * 365 + (y - 1) div 4 - (y - 1) div 100 + (y - 1) div 400"
    unfolding days_before_year_def Let_def by (rule refl)
  ultimately have "days_before_year (y + 1) - days_before_year y = 365 + a - b + c"
    unfolding a_def b_def c_def by (rule year_diff_linear)
  moreover have "365 + a - b + c = (if is_leap y then 366 else 365)"
    unfolding is_leap_def
  proof (rule leap_count)
    show "a = (if y mod 4 = 0 then 1 else 0)" unfolding a_def by (rule div_pred) simp
    show "b = (if y mod 100 = 0 then 1 else 0)" unfolding b_def by (rule div_pred) simp
    show "c = (if y mod 400 = 0 then 1 else 0)" unfolding c_def by (rule div_pred) simp
    show "y mod 400 = 0 \<Longrightarrow> y mod 100 = 0" by (rule mod_400_100)
    show "y mod 100 = 0 \<Longrightarrow> y mod 4 = 0" by (rule mod_100_4)
  qed
  ultimately have "days_before_year (y + 1) - days_before_year y = (if is_leap y then 366 else 365)"
    by (simp only:)
  then show ?thesis by (simp only: diff_eq_eq add.commute)
qed

lemma days_before_december:
  "days_before_month y 12 + 31 = (if is_leap y then 366 else 365)"
  by (simp add: days_before_month_def DAYS_BEFORE_MONTH_def)

lemma ymd2ord_next_month:
  assumes "1 \<le> m" "m < 12"
  shows "ymd2ord y (m + 1) 1 - 1 = ymd2ord y m (days_in_month y m)"
  using days_before_month_step [OF assms] by (simp add: ymd2ord_def)

lemma ymd2ord_next_year:
  "ymd2ord (y + 1) 1 1 - 1 = ymd2ord y 12 (days_in_month y 12)"
  using days_before_year_step [of y] days_before_december [of y]
  by (simp add: ymd2ord_def days_in_month_def DAYS_IN_MONTH_def days_before_month_def DAYS_BEFORE_MONTH_def)

lemma days_before_year_mono: "y \<le> y' \<Longrightarrow> days_before_year y \<le> days_before_year y'"
proof (induction y' rule: int_ge_induct)
  case base
  show ?case by simp
next
  case (step i)
  then show ?case using days_before_year_step [of i] by (simp split: if_splits)
qed

lemma days_before_year_nonneg: "1 \<le> y \<Longrightarrow> 0 \<le> days_before_year y"
proof -
  assume "1 \<le> y"
  then have "days_before_year 1 \<le> days_before_year y" by (rule days_before_year_mono)
  moreover have "days_before_year 1 = 0" by (simp add: days_before_year_def)
  ultimately show ?thesis by simp
qed

lemma days_before_month_bounds:
  assumes "1 \<le> m" "m \<le> 12"
  shows "0 \<le> days_before_month y m \<and> days_before_month y m \<le> 335"
  using month_cases [OF assms] by (auto simp: days_before_month_def DAYS_BEFORE_MONTH_def)

lemma ymd2ord_bounds:
  assumes "1 \<le> y" "y \<le> 9999" "1 \<le> m" "m \<le> 12" "1 \<le> d" "d \<le> days_in_month y m"
  shows "1 \<le> ymd2ord y m d \<and> ymd2ord y m d \<le> MAXORDINAL"
proof -
  have "days_before_year (y + 1) \<le> days_before_year 10000"
    using assms(2) by (intro days_before_year_mono) simp
  moreover have "days_before_year 10000 = 3652059" by (simp add: days_before_year_def)
  moreover have "days_before_month y m + d \<le> (if is_leap y then 366 else 365)"
    using month_cases [OF assms(3,4)] assms(6)
    by (auto simp: days_before_month_def DAYS_BEFORE_MONTH_def days_in_month_def DAYS_IN_MONTH_def split: if_splits)
  ultimately have "ymd2ord y m d \<le> MAXORDINAL"
    using days_before_year_step [of y] by (simp add: ymd2ord_def MAXORDINAL_def split: if_splits)
  moreover have "1 \<le> ymd2ord y m d"
    using days_before_year_nonneg [OF assms(1)] days_before_month_bounds [OF assms(3,4), of y] assms(5)
    by (simp add: ymd2ord_def)
  ultimately show ?thesis by simp
qed


subsection \<open>Month tokens\<close>


lemma is_digit_props:
  assumes "is_digit c"
  shows "c \<noteq> CHR ''-''" "c \<noteq> CHR ''+''" "c \<noteq> CHR ''_''" "\<not> is_space c"
  using assms by (auto simp: is_digit_def is_space_def)

lemma is_space_newline: "is_space (CHR 0x0A)"
  by (simp add: is_space_def)

lemma re_items_Some:
  "re_items is s = Some rest \<longleftrightarrow> (\<exists>pre. s = pre @ rest \<and> list_all2 item_ok is pre)"
proof (induction "is" s rule: re_items.induct)
  case (1 s)
  show ?case by auto
next
  case (2 i "is")
  show ?case by auto
next
  case (3 "is" c cs)
  show ?case
  proof (cases "is_digit c")
    case True
    with 3 show ?thesis by (auto simp: list_all2_Cons1 Cons_eq_append_conv)
  next
    case False
    then show ?thesis by (auto simp: list_all2_Cons1 Cons_eq_append_conv)
  qed
next
  case (4 l "is" c cs)
  show ?case
  proof (cases "c = l")
    case True
    with 4 show ?thesis by (auto simp: list_all2_Cons1 Cons_eq_append_conv)
  next
    case False
    then show ?thesis by (auto simp: list_all2_Cons1 Cons_eq_append_conv)
  qed
qed

lemma list_all2_replicate_Digit:
  "list_all2 item_ok (replicate n Digit) ds \<longleftrightarrow> length ds = n \<and> (\<forall>c\<in>set ds. is_digit c)"
  by (induction n arbitrary: ds) (auto simp: list_all2_Cons1 length_Suc_conv)

lemma month_pattern_pre:
  "list_all2 item_ok month_pattern pre \<longleftrightarrow>
     (\<exists>ys ms. pre = ys @ CHR ''-'' # ms \<and> length ys = 4 \<and> length ms = 2 \<and>
        (\<forall>c\<in>set ys. is_digit c) \<and> (\<forall>c\<in>set ms. is_digit c))"
proof
  assume "list_all2 item_ok month_pattern pre"
  then obtain us vs where uv: "pre = us @ vs" "list_all2 item_ok (replicate 4 Digit) us"
      "list_all2 item_ok (Lit CHR ''-'' # replicate 2 Digit) vs"
    unfolding month_pattern_def by (auto simp: list_all2_append1)
  from uv(3) obtain ms where ms: "vs = CHR ''-'' # ms" "list_all2 item_ok (replicate 2 Digit) ms"
    by (auto simp: list_all2_Cons1)
  from uv(1,2) ms show "\<exists>ys ms. pre = ys @ CHR ''-'' # ms \<and> length ys = 4 \<and> length ms = 2 \<and>
        (\<forall>c\<in>set ys. is_digit c) \<and> (\<forall>c\<in>set ms. is_digit c)"
    by (auto simp: list_all2_replicate_Digit)
next
  assume "\<exists>ys ms. pre = ys @ CHR ''-'' # ms \<and> length ys = 4 \<and> length ms = 2 \<and>
        (\<forall>c\<in>set ys. is_digit c) \<and> (\<forall>c\<in>set ms. is_digit c)"
  then obtain ys ms where h: "pre = ys @ CHR ''-'' # ms" "length ys = 4" "length ms = 2"
      "\<forall>c\<in>set ys. is_digit c" "\<forall>c\<in>set ms. is_digit c"
    by blast
  have "list_all2 item_ok (replicate 4 Digit) ys"
    using h(2,4) by (simp add: list_all2_replicate_Digit)
  moreover have "list_all2 item_ok ([Lit CHR ''-''] @ replicate 2 Digit) (CHR ''-'' # ms)"
    using h(3,5) by (simp add: list_all2_replicate_Digit)
  ultimately show "list_all2 item_ok month_pattern pre"
    unfolding month_pattern_def h(1) by (rule list_all2_appendI)
qed

lemma re_match_month_iff:
  "re_match_month s \<longleftrightarrow>
     (\<exists>ys ms. length ys = 4 \<and> length ms = 2 \<and> (\<forall>c\<in>set ys. is_digit c) \<and> (\<forall>c\<in>set ms. is_digit c) \<and>
        (s = ys @ CHR ''-'' # ms \<or> s = ys @ CHR ''-'' # ms @ [CHR 0x0A]))"
proof -
  have "re_match_month s \<longleftrightarrow> (\<exists>rest. re_items month_pattern s = Some rest \<and> re_dollar rest)"
    by (simp add: re_match_month_def split: option.splits)
  also have "\<dots> \<longleftrightarrow> (\<exists>pre. list_all2 item_ok month_pattern pre \<and> (s = pre \<or> s = pre @ [CHR 0x0A]))"
    unfolding re_items_Some re_dollar_def by auto
  also have "\<dots> \<longleftrightarrow> (\<exists>ys ms. length ys = 4 \<and> length ms = 2 \<and> (\<forall>c\<in>set ys. is_digit c) \<and> (\<forall>c\<in>set ms. is_digit c) \<and>
        (s = ys @ CHR ''-'' # ms \<or> s = (ys @ CHR ''-'' # ms) @ [CHR 0x0A]))"
    unfolding month_pattern_pre by blast
  finally show ?thesis by simp
qed

lemma split_on_no_sep: "sep \<notin> set xs \<Longrightarrow> split_on sep xs = [xs]"
  by (induction xs) auto

lemma split_on_append_sep:
  "sep \<notin> set xs \<Longrightarrow> split_on sep (xs @ sep # ys) = xs # split_on sep ys"
  by (induction xs) auto

lemma dropWhile_digits:
  "ds \<noteq> [] \<Longrightarrow> \<forall>c\<in>set ds. is_digit c \<Longrightarrow> dropWhile is_space (ds @ r) = ds @ r"
  by (cases ds) (simp_all add: is_digit_props(4))

lemma strip_digits:
  assumes "ds \<noteq> []" "\<forall>c\<in>set ds. is_digit c"
  shows "strip ds = ds" and "strip (ds @ [CHR 0x0A]) = ds"
proof -
  have r: "rev ds \<noteq> []" "\<forall>c\<in>set (rev ds). is_digit c" using assms by simp_all
  have d: "dropWhile is_space (ds @ r) = ds @ r" for r
    using assms by (rule dropWhile_digits)
  have e: "dropWhile is_space (rev ds) = rev ds"
    using dropWhile_digits [OF r, of "[]"] by simp
  show "strip ds = ds"
    using d [of "[]"] e by (simp add: strip_def)
  show "strip (ds @ [CHR 0x0A]) = ds"
    using d [of "[CHR 0x0A]"] e by (simp add: strip_def is_space_newline)
qed

lemma int_body_ok_digits: "ds \<noteq> [] \<Longrightarrow> \<forall>c\<in>set ds. is_digit c \<Longrightarrow> int_body_ok ds"
  by (induction ds rule: int_body_ok.induct) (auto simp: is_digit_props(3))

lemma py_int_digits:
  assumes "ds \<noteq> []" "\<forall>c\<in>set ds. is_digit c"
  shows "py_int ds = Inr (digits_value ds)" and "py_int (ds @ [CHR 0x0A]) = Inr (digits_value ds)"
proof -
  have hd: "hd ds \<noteq> CHR ''-''" "hd ds \<noteq> CHR ''+''"
    using assms by (cases ds; simp add: is_digit_props)+
  have rm: "remove_char CHR ''_'' ds = ds"
    unfolding remove_char_def using assms(2) by (simp add: is_digit_props(3) filter_id_conv)
  show "py_int ds = Inr (digits_value ds)"
    by (simp add: py_int_def strip_digits(1) [OF assms] hd rm int_body_ok_digits [OF assms] Let_def)
  show "py_int (ds @ [CHR 0x0A]) = Inr (digits_value ds)"
    by (simp add: py_int_def strip_digits(2) [OF assms] hd rm int_body_ok_digits [OF assms] Let_def)
qed

lemma parse_year_month_digits:
  assumes "length ys = 4" "length ms = 2" "\<forall>c\<in>set ys. is_digit c" "\<forall>c\<in>set ms. is_digit c"
    and "s = ys @ CHR ''-'' # ms \<or> s = ys @ CHR ''-'' # ms @ [CHR 0x0A]"
  shows "parse_year_month s = Inr (digits_value ys, digits_value ms)"
proof -
  have ne: "ys \<noteq> []" "ms \<noteq> []" using assms(1,2) by auto
  have nd: "CHR ''-'' \<notin> set ys" "CHR ''-'' \<notin> set ms" "CHR ''-'' \<notin> set (ms @ [CHR 0x0A])"
    using assms(3,4) is_digit_props(1) by auto
  from assms(5) show ?thesis
  proof
    assume "s = ys @ CHR ''-'' # ms"
    then have "split_on CHR ''-'' s = [ys, ms]"
      by (simp add: split_on_append_sep [OF nd(1)] split_on_no_sep [OF nd(2)])
    then show ?thesis
      by (simp add: parse_year_month_def then_do_def py_int_digits(1) [OF ne(1) assms(3)]
          py_int_digits(1) [OF ne(2) assms(4)])
  next
    assume "s = ys @ CHR ''-'' # ms @ [CHR 0x0A]"
    then have "split_on CHR ''-'' s = [ys, ms @ [CHR 0x0A]]"
      by (simp add: split_on_append_sep [OF nd(1)] split_on_no_sep [OF nd(3)])
    then show ?thesis
      by (simp add: parse_year_month_def then_do_def py_int_digits(1) [OF ne(1) assms(3)]
          py_int_digits(2) [OF ne(2) assms(4)])
  qed
qed


lemma then_do_simps:
  "then_do (Inl e) f = Inl e" "then_do (Inr v) f = f v"
  by (simp_all add: then_do_def)

lemma days_in_month_table:
  assumes "1 \<le> m" "m \<le> 12"
  shows "days_in_month y m =
    (if m = 2 then (if is_leap y then 29 else 28)
     else if m = 4 \<or> m = 6 \<or> m = 9 \<or> m = 11 then 30 else 31)"
  using month_cases [OF assms] by (auto simp: days_in_month_def DAYS_IN_MONTH_def)

lemma datetime_ymd_ok:
  assumes "1 \<le> y" "y \<le> 9999" "1 \<le> m" "m \<le> 12" "1 \<le> d" "d \<le> days_in_month y m"
  shows "datetime_ymd y m d = Inr \<lparr>day_ord = ymd2ord y m d, tod = 0\<rparr>"
proof -
  have "d \<le> 31" using assms(6) days_in_month_bounds [OF assms(3,4), of y] by simp
  with assms have "c_int y \<and> c_int m \<and> c_int d" by (simp add: c_int_def)
  with assms show ?thesis by (simp add: datetime_ymd_def)
qed

lemma first_day_ok:
  assumes "1 \<le> y" "y \<le> 9999" "1 \<le> m" "m \<le> 12"
  shows "datetime_ymd y m 1 = Inr \<lparr>day_ord = ymd2ord y m 1, tod = 0\<rparr>"
  using assms days_in_month_bounds [OF assms(3,4), of y] by (intro datetime_ymd_ok) simp_all

lemma calc_date_range_ok:
  assumes y: "1 \<le> y" "y \<le> 9999" and m: "1 \<le> m" "m \<le> 12" and nx: "y = 9999 \<longrightarrow> m \<noteq> 12"
  shows "calc_date_range y m =
    Inr (\<lparr>day_ord = ymd2ord y m 1, tod = 0\<rparr>, \<lparr>day_ord = ymd2ord y m (days_in_month y m), tod = 0\<rparr>)"
proof -
  have start: "datetime_ymd y m 1 = Inr \<lparr>day_ord = ymd2ord y m 1, tod = 0\<rparr>"
    using y m by (rule first_day_ok)
  have last_rng: "1 \<le> ymd2ord y m (days_in_month y m) \<and> ymd2ord y m (days_in_month y m) \<le> MAXORDINAL"
    using y m days_in_month_bounds [OF m, of y] by (intro ymd2ord_bounds) simp_all
  show ?thesis
  proof (cases "m = 12")
    case True
    with y nx have y1: "1 \<le> y + 1" "y + 1 \<le> 9999" by simp_all
    have nxt: "datetime_ymd (y + 1) 1 1 = Inr \<lparr>day_ord = ymd2ord (y + 1) 1 1, tod = 0\<rparr>"
      using y1 by (intro first_day_ok) simp_all
    have "ymd2ord (y + 1) 1 1 + - 1 = ymd2ord y m (days_in_month y m)"
      using ymd2ord_next_year [of y] True by simp
    then have "add_days \<lparr>day_ord = ymd2ord (y + 1) 1 1, tod = 0\<rparr> (- 1)
        = Inr \<lparr>day_ord = ymd2ord y m (days_in_month y m), tod = 0\<rparr>"
      using last_rng by (simp add: add_days_def Let_def)
    then show ?thesis
      using True start nxt by (simp add: calc_date_range_def then_do_simps)
  next
    case False
    with m have m1: "1 \<le> m + 1" "m + 1 \<le> 12" "m < 12" by simp_all
    have nxt: "datetime_ymd y (m + 1) 1 = Inr \<lparr>day_ord = ymd2ord y (m + 1) 1, tod = 0\<rparr>"
      using y m1(1,2) by (rule first_day_ok)
    have "ymd2ord y (m + 1) 1 + - 1 = ymd2ord y m (days_in_month y m)"
      using ymd2ord_next_month [OF m(1) m1(3), of y] by simp
    then have "add_days \<lparr>day_ord = ymd2ord y (m + 1) 1, tod = 0\<rparr> (- 1)
        = Inr \<lparr>day_ord = ymd2ord y m (days_in_month y m), tod = 0\<rparr>"
      using last_rng by (simp add: add_days_def Let_def)
    then show ?thesis
      using False start nxt by (simp add: calc_date_range_def then_do_simps)
  qed
qed

lemma validate_month_string_accepts:
  "validate_month_string s = Inr (True, None) \<longleftrightarrow>
     (\<exists>ys ms. length ys = 4 \<and> length ms = 2 \<and> (\<forall>c\<in>set ys. is_digit c) \<and> (\<forall>c\<in>set ms. is_digit c) \<and>
        (s = ys @ CHR ''-'' # ms \<or> s = ys @ CHR ''-'' # ms @ [CHR 0x0A]) \<and>
        1900 \<le> digits_value ys \<and> digits_value ys \<le> 2100 \<and>
        1 \<le> digits_value ms \<and> digits_value ms \<le> 12)"
  (is "?L \<longleftrightarrow> ?R")
proof
  assume L: ?L
  then have ne: "s \<noteq> []" and rm: "re_match_month s"
    by (auto simp: validate_month_string_def split: if_splits)
  from rm obtain ys ms where sh: "length ys = 4" "length ms = 2" "\<forall>c\<in>set ys. is_digit c"
      "\<forall>c\<in>set ms. is_digit c" "s = ys @ CHR ''-'' # ms \<or> s = ys @ CHR ''-'' # ms @ [CHR 0x0A]"
    unfolding re_match_month_iff by blast
  have p: "parse_year_month s = Inr (digits_value ys, digits_value ms)"
    using sh by (rule parse_year_month_digits)
  from L ne rm have "1900 \<le> digits_value ys \<and> digits_value ys \<le> 2100 \<and>
        1 \<le> digits_value ms \<and> digits_value ms \<le> 12"
    by (simp add: validate_month_string_def p then_do_simps split: if_splits)
  with sh show ?R by blast
next
  assume ?R
  then obtain ys ms where sh: "length ys = 4" "length ms = 2" "\<forall>c\<in>set ys. is_digit c"
      "\<forall>c\<in>set ms. is_digit c" "s = ys @ CHR ''-'' # ms \<or> s = ys @ CHR ''-'' # ms @ [CHR 0x0A]"
    and rg: "1900 \<le> digits_value ys" "digits_value ys \<le> 2100" "1 \<le> digits_value ms" "digits_value ms \<le> 12"
    by blast
  have p: "parse_year_month s = Inr (digits_value ys, digits_value ms)"
    using sh by (rule parse_year_month_digits)
  have rm: "re_match_month s"
    unfolding re_match_month_iff using sh by blast
  have ne: "s \<noteq> []" using sh(5) by auto
  show ?L
    using ne rm rg by (simp add: validate_month_string_def p then_do_simps)
qed

lemma valid_month_parse:
  assumes "validate_month_string M = Inr (True, None)"
  obtains y m where "parse_year_month M = Inr (y, m)" "1900 \<le> y" "y \<le> 2100" "1 \<le> m" "m \<le> 12"
proof -
  from assms obtain ys ms where sh: "length ys = 4" "length ms = 2" "\<forall>c\<in>set ys. is_digit c"
      "\<forall>c\<in>set ms. is_digit c" "M = ys @ CHR ''-'' # ms \<or> M = ys @ CHR ''-'' # ms @ [CHR 0x0A]"
    and rg: "1900 \<le> digits_value ys" "digits_value ys \<le> 2100" "1 \<le> digits_value ms" "digits_value ms \<le> 12"
    unfolding validate_month_string_accepts by blast
  have "parse_year_month M = Inr (digits_value ys, digits_value ms)"
    using sh by (rule parse_year_month_digits)
  then show ?thesis using rg by (rule that)
qed

subsection \<open>The range of a month\<close>


lemma digit_char_cases:
  assumes "0 \<le> k" "k \<le> 9"
  shows "k = 0 \<or> k = 1 \<or> k = 2 \<or> k = 3 \<or> k = 4 \<or> k = 5 \<or> k = 6 \<or> k = 7 \<or> k = 8 \<or> k = (9::int)"
  using assms by arith

lemma digit_char_props:
  assumes "0 \<le> k" "k \<le> 9"
  shows "is_digit (digit_char k)" and "digit_val (digit_char k) = k"
  using digit_char_cases [OF assms]
  by (auto simp: digit_char_def is_digit_def digit_val_def)

lemma mod10_range: "0 \<le> (k::int) mod 10 \<and> k mod 10 \<le> 9"
  using pos_mod_sign [of 10 k] pos_mod_bound [of 10 k] by linarith

lemma digits4_linear:
  fixes y q1 q2 q3 r0 r1 r2 :: int
  assumes "y = q1 * 10 + r0" "q1 = q2 * 10 + r1" "q2 = q3 * 10 + r2"
  shows "((q3 * 10 + r2) * 10 + r1) * 10 + r0 = y"
  using assms by simp

lemma year_digits:
  fixes y :: int
  assumes "0 \<le> y" "y \<le> 9999"
  shows "((y div 1000 mod 10 * 10 + y div 100 mod 10) * 10 + y div 10 mod 10) * 10 + y mod 10 = y"
proof -
  have e1: "y div 10 div 10 = y div 100" using zdiv_zmult2_eq [of 10 y 10] by simp
  have e2: "y div 100 div 10 = y div 1000" using zdiv_zmult2_eq [of 10 y 100] by simp
  have a: "y = y div 10 * 10 + y mod 10" by simp
  have b: "y div 10 = y div 100 * 10 + y div 10 mod 10"
    using div_mult_mod_eq [of "y div 10" 10] e1 by simp
  have c: "y div 100 = y div 1000 * 10 + y div 100 mod 10"
    using div_mult_mod_eq [of "y div 100" 10] e2 by simp
  have "y div 1000 < 10" using zdiv_mono1 [of y 9999 1000] assms by simp
  moreover have "0 \<le> y div 1000" using zdiv_mono1 [of 0 y 1000] assms by simp
  ultimately have d: "y div 1000 mod 10 = y div 1000" by simp
  show ?thesis unfolding d using a b c by (rule digits4_linear)
qed

lemma month_digits:
  fixes m :: int
  assumes "0 \<le> m" "m \<le> 99"
  shows "m div 10 mod 10 * 10 + m mod 10 = m"
proof -
  have "m div 10 < 10" using zdiv_mono1 [of m 99 10] assms by simp
  moreover have "0 \<le> m div 10" using zdiv_mono1 [of 0 m 10] assms by simp
  ultimately have d: "m div 10 mod 10 = m div 10" by simp
  show ?thesis unfolding d by (rule div_mult_mod_eq)
qed

lemma digit_mod10:
  "is_digit (digit_char (k mod 10))" "digit_val (digit_char (k mod 10)) = k mod 10"
proof -
  have r: "0 \<le> k mod 10" "k mod 10 \<le> 9" using mod10_range [of k] by blast+
  show "is_digit (digit_char (k mod 10))" using r by (rule digit_char_props(1))
  show "digit_val (digit_char (k mod 10)) = k mod 10" using r by (rule digit_char_props(2))
qed

lemma digits_value_4:
  "digits_value [a, b, c, d] = ((digit_val a * 10 + digit_val b) * 10 + digit_val c) * 10 + digit_val d"
  by (simp add: digits_value_def)

lemma digits_value_2: "digits_value [e, f] = digit_val e * 10 + digit_val f"
  by (simp add: digits_value_def)

lemma parse_month_token:
  assumes "0 \<le> y" "y \<le> 9999" "0 \<le> m" "m \<le> 99"
  shows "parse_year_month (month_token y m) = Inr (y, m)"
proof -
  define ys where "ys = [digit_char (y div 1000 mod 10), digit_char (y div 100 mod 10),
      digit_char (y div 10 mod 10), digit_char (y mod 10)]"
  define ms where "ms = [digit_char (m div 10 mod 10), digit_char (m mod 10)]"
  have dy: "\<forall>c\<in>set ys. is_digit c"
    unfolding ys_def by (simp only: list.set ball_simps digit_mod10(1) simp_thms)
  have dm: "\<forall>c\<in>set ms. is_digit c"
    unfolding ms_def by (simp only: list.set ball_simps digit_mod10(1) simp_thms)
  have vy: "digits_value ys = y"
    unfolding ys_def digits_value_4 digit_mod10(2) using assms(1,2) by (rule year_digits)
  have vm: "digits_value ms = m"
    unfolding ms_def digits_value_2 digit_mod10(2) using assms(3,4) by (rule month_digits)
  have l: "length ys = 4" "length ms = 2" by (simp_all add: ys_def ms_def)
  have "month_token y m = ys @ CHR ''-'' # ms"
    unfolding month_token_def ys_def ms_def by simp
  then have "month_token y m = ys @ CHR ''-'' # ms \<or> month_token y m = ys @ CHR ''-'' # ms @ [CHR 0x0A]"
    by (rule disjI1)
  with l dy dm have "parse_year_month (month_token y m) = Inr (digits_value ys, digits_value ms)"
    by (rule parse_year_month_digits)
  then show ?thesis by (simp only: vy vm)
qed

lemma day_of_year_bounds:
  assumes "1 \<le> m" "m \<le> 12" "1 \<le> d" "d \<le> days_in_month y m"
  shows "1 \<le> days_before_month y m + d" "days_before_month y m + d \<le> (if is_leap y then 366 else 365)"
proof -
  show "1 \<le> days_before_month y m + d"
    using days_before_month_bounds [OF assms(1,2), of y] assms(3) by simp
  show "days_before_month y m + d \<le> (if is_leap y then 366 else 365)"
    using month_cases [OF assms(1,2)] assms(4)
    by (auto simp: days_before_month_def DAYS_BEFORE_MONTH_def days_in_month_def DAYS_IN_MONTH_def split: if_splits)
qed

lemma ymd2ord_within_year:
  assumes "valid_date y m d"
  shows "days_before_year y < ymd2ord y m d" "ymd2ord y m d \<le> days_before_year (y + 1)"
proof -
  from assms have v: "1 \<le> m" "m \<le> 12" "1 \<le> d" "d \<le> days_in_month y m"
    by (simp_all add: valid_date_def)
  show "days_before_year y < ymd2ord y m d"
    using day_of_year_bounds(1) [OF v] by (simp add: ymd2ord_def)
  show "ymd2ord y m d \<le> days_before_year (y + 1)"
    using day_of_year_bounds(2) [OF v] days_before_year_step [of y]
    by (simp add: ymd2ord_def split: if_splits)
qed

lemma ymd2ord_year_less:
  assumes "valid_date y m d" "valid_date y' m' d'" "y < y'"
  shows "ymd2ord y m d < ymd2ord y' m' d'"
proof -
  have "ymd2ord y m d \<le> days_before_year (y + 1)" using assms(1) by (rule ymd2ord_within_year)
  also have "\<dots> \<le> days_before_year y'" using assms(3) by (intro days_before_year_mono) simp
  also have "\<dots> < ymd2ord y' m' d'" using assms(2) by (rule ymd2ord_within_year)
  finally show ?thesis .
qed

lemma days_before_month_mono:
  assumes "1 \<le> m" "m < m'" "m' \<le> 12"
  shows "days_before_month y m + days_in_month y m \<le> days_before_month y m'"
proof -
  have "m + 1 \<le> m'" using assms(2) by simp
  then show ?thesis using assms(3)
  proof (induction m' rule: int_ge_induct)
    case base
    show ?case using days_before_month_step [of m y] assms by simp
  next
    case (step i)
    have i: "1 \<le> i" "i < 12" using step.hyps step.prems assms(1) by simp_all
    have "days_before_month y m + days_in_month y m \<le> days_before_month y i"
      using step.IH i by simp
    also have "\<dots> \<le> days_before_month y (i + 1)"
      using days_before_month_step [OF i, of y] days_in_month_bounds [of i y] i by simp
    finally show ?case .
  qed
qed

lemma ymd2ord_month_less:
  assumes "valid_date y m d" "valid_date y m' d'" "m < m'"
  shows "ymd2ord y m d < ymd2ord y m' d'"
proof -
  from assms(1,2) have v: "1 \<le> m" "d \<le> days_in_month y m" "m' \<le> 12" "1 \<le> d'"
    by (simp_all add: valid_date_def)
  have "days_before_month y m + d \<le> days_before_month y m'"
    using days_before_month_mono [OF v(1) assms(3) v(3), of y] v(2) by simp
  then show ?thesis using v(4) by (simp add: ymd2ord_def)
qed

lemma ymd2ord_inject:
  assumes "valid_date y m d" "valid_date y' m' d'" "ymd2ord y m d = ymd2ord y' m' d'"
  shows "y = y' \<and> m = m' \<and> d = d'"
proof -
  have y: "y = y'"
    using ymd2ord_year_less [OF assms(1,2)] ymd2ord_year_less [OF assms(2,1)] assms(3)
    by (cases y y' rule: linorder_cases) simp_all
  have m: "m = m'"
    using ymd2ord_month_less [of y m d m' d'] ymd2ord_month_less [of y m' d' m d] assms y
    by (cases m m' rule: linorder_cases) simp_all
  from assms(3) y m have "d = d'" by (simp add: ymd2ord_def)
  with y m show ?thesis by simp
qed

text \<open>
  C1, as the program has it. For every month token \<open>YYYY-MM\<close> with a month from 01 to 12
  and a year from 0001 to 9999, the token 9999-12 apart, \<open>get_month_date_range\<close> returns a
  pair: its start is \<open>datetime(y, m, 1)\<close>, midnight of day 1 of the month, and its end is
  midnight of \<open>datetime(y, m, n)\<close> for \<open>n\<close> the number of days of the month, 28 or 29 in
  February by the leap year rule and 30 or 31 otherwise; the day after the end is the first
  day of the next month, of January of the next year after December.
\<close>

theorem get_month_date_range_last_day:
  assumes "1 \<le> y" "y \<le> 9999" "1 \<le> m" "m \<le> 12" "(y, m) \<noteq> (9999, 12)"
  shows "\<exists>start_date end_date.
           get_month_date_range (month_token y m) = Inr (start_date, end_date) \<and>
           datetime_ymd y m 1 = Inr start_date \<and>
           datetime_ymd y m (days_in_month y m) = Inr end_date \<and>
           tod start_date = 0 \<and> tod end_date = 0 \<and>
           day_ord end_date = day_ord start_date + days_in_month y m - 1 \<and>
           day_ord end_date + 1 = (if m = 12 then ymd2ord (y + 1) 1 1 else ymd2ord y (m + 1) 1) \<and>
           days_in_month y m =
             (if m = 2 then (if is_leap y then 29 else 28)
              else if m = 4 \<or> m = 6 \<or> m = 9 \<or> m = 11 then 30 else 31)"
proof -
  have y: "1 \<le> y" "y \<le> 9999" "y = 9999 \<longrightarrow> m \<noteq> 12" and m: "1 \<le> m" "m \<le> 12"
    using assms by simp_all
  have p: "parse_year_month (month_token y m) = Inr (y, m)"
    using assms(1-4) by (intro parse_month_token) simp_all
  let ?s = "\<lparr>day_ord = ymd2ord y m 1, tod = 0\<rparr>"
  let ?e = "\<lparr>day_ord = ymd2ord y m (days_in_month y m), tod = 0\<rparr>"
  have "get_month_date_range (month_token y m) = Inr (?s, ?e)"
    using calc_date_range_ok [OF y(1,2) m y(3)] by (simp add: get_month_date_range_def p then_do_simps)
  moreover have "datetime_ymd y m 1 = Inr ?s"
    using y(1,2) m by (rule first_day_ok)
  moreover have "datetime_ymd y m (days_in_month y m) = Inr ?e"
    using y(1,2) m days_in_month_bounds [OF m, of y] by (intro datetime_ymd_ok) simp_all
  moreover have "day_ord ?e = day_ord ?s + days_in_month y m - 1"
    by (simp add: ymd2ord_def)
  moreover have "day_ord ?e + 1 = (if m = 12 then ymd2ord (y + 1) 1 1 else ymd2ord y (m + 1) 1)"
  proof (cases "m = 12")
    case True
    then show ?thesis using ymd2ord_next_year [of y] by simp
  next
    case False
    with m have "m < 12" by simp
    from ymd2ord_next_month [OF m(1) this, of y] False show ?thesis by simp
  qed
  moreover note days_in_month_table [OF m, of y]
  ultimately show ?thesis by simp
qed

theorem get_month_date_range_last_day_witness:
  "(1::int) \<le> 2024 \<and> (2024::int) \<le> 9999 \<and> (1::int) \<le> 2 \<and> (2::int) \<le> 12 \<and>
   (2024::int, 2::int) \<noteq> (9999, 12) \<and> month_token 2024 2 = ''2024-02'' \<and>
   get_month_date_range ''2024-02'' =
     Inr (\<lparr>day_ord = ymd2ord 2024 2 1, tod = 0\<rparr>, \<lparr>day_ord = ymd2ord 2024 2 29, tod = 0\<rparr>)"
proof -
  have t: "month_token 2024 2 = ''2024-02''" by code_simp
  have l: "is_leap 2024" by code_simp
  from get_month_date_range_last_day [of 2024 2] t l
  have "\<exists>s e. get_month_date_range ''2024-02'' = Inr (s, e) \<and> datetime_ymd 2024 2 1 = Inr s
     \<and> datetime_ymd 2024 2 29 = Inr e"
    by auto
  then have "get_month_date_range ''2024-02'' =
     Inr (\<lparr>day_ord = ymd2ord 2024 2 1, tod = 0\<rparr>, \<lparr>day_ord = ymd2ord 2024 2 29, tod = 0\<rparr>)"
    using l by (auto simp: datetime_ymd_def days_in_month_def c_int_def split: if_splits)
  with t show ?thesis by simp
qed

text \<open>
  The claim C1 speaks of every token with a month from 01 to 12. For the year 0000, and
  for 9999-12 whose next month is in the year 10000, \<open>datetime\<close> raises ValueError and no
  range is returned.
\<close>

theorem get_month_date_range_outside_calendar:
  "month_token 0 1 = ''0000-01'' \<and> get_month_date_range ''0000-01'' = Inl ValueError \<and>
   month_token 9999 12 = ''9999-12'' \<and> get_month_date_range ''9999-12'' = Inl ValueError"
  by code_simp

lemma get_month_date_range_examples:
  "get_month_date_range ''2023-02'' = Inr (\<lparr>day_ord = ymd2ord 2023 2 1, tod = 0\<rparr>, \<lparr>day_ord = ymd2ord 2023 2 28, tod = 0\<rparr>)"
  "get_month_date_range ''2024-12'' = Inr (\<lparr>day_ord = ymd2ord 2024 12 1, tod = 0\<rparr>, \<lparr>day_ord = ymd2ord 2024 12 31, tod = 0\<rparr>)"
  "ymd2ord 2024 12 31 + 1 = ymd2ord 2025 1 1"
  "get_days_in_month ''2024-02'' = Inr 29"
  "get_days_in_month ''2023-02'' = Inr 28"
  by code_simp+

subsection \<open>The validation of a month token\<close>

text \<open>
  C9. \<open>validate_month_string\<close> is to accept exactly the strings \<open>YYYY-MM\<close> with a month
  from 01 to 12 and a year from 1900 to 2100. It does accept those, and rejects
  \<open>2024-13\<close>; but it also accepts such a string followed by one newline, which is not of
  the form \<open>YYYY-MM\<close>: the \<open>$\<close> of the pattern holds before a final newline, and \<open>int\<close>
  drops it.
\<close>

theorem validate_month_string_accepts_trailing_newline:
  "validate_month_string (''2024-02'' @ [CHR 0x0A]) = Inr (True, None)"
  by code_simp

lemma validate_month_string_examples:
  "validate_month_string ''2024-02'' = Inr (True, None)"
  "validate_month_string ''2024-13'' = Inr (False, Some ''Month must be between 01 and 12'')"
  "validate_month_string ''1899-12'' = Inr (False, Some ''Year must be between 1900 and 2100'')"
  "validate_month_string ''2024-2'' = Inr (False, Some ''Invalid month format. Use YYYY-MM'')"
  by code_simp+

subsection \<open>The validation of an amount\<close>

lemma Decimal_str_error: "Decimal_str v = Inl e \<Longrightarrow> e = InvalidOperation"
  by (simp add: Decimal_str_def Let_def split: option.splits if_splits prod.splits)

lemma decimal_le_zero_error: "decimal_le_zero d = Inl e \<Longrightarrow> e = InvalidOperation"
  by (cases d) (simp_all add: decimal_le_zero_def)

lemma validate_amount_structured:
  "\<exists>ok amt msg. validate_amount s = Inr (ok, amt, msg) \<and>
     (if ok then msg = None \<and> (\<exists>d. amt = Some d \<and> decimal_le_zero d = Inr False)
      else amt = None \<and> msg \<noteq> None)"
proof (cases "s = [] \<or> strip s = []")
  case True
  then show ?thesis by (auto simp: validate_amount_def)
next
  case False
  define cleaned where "cleaned = strip (remove_char CHR '','' (remove_char (CHR 0xA3) (remove_char CHR ''$'' s)))"
  show ?thesis
  proof (cases "Decimal_str cleaned")
    case (Inl e)
    then have "e = InvalidOperation" by (rule Decimal_str_error)
    with Inl False show ?thesis
      by (auto simp: validate_amount_def cleaned_def [symmetric] then_do_simps Let_def)
  next
    case (Inr d)
    show ?thesis
    proof (cases "decimal_le_zero d")
      case (Inl e)
      then have "e = InvalidOperation" by (rule decimal_le_zero_error)
      with Inl Inr False show ?thesis
        by (auto simp: validate_amount_def cleaned_def [symmetric] then_do_simps Let_def)
    next
      case le: (Inr b)
      with Inr False show ?thesis
        by (auto simp: validate_amount_def cleaned_def [symmetric] then_do_simps Let_def)
    qed
  qed
qed

text \<open>
  C8. \<open>validate_amount\<close> returns a triple \<open>(is_valid, parsed_amount, error_message)\<close> for
  every string and raises no exception; \<open>"0"\<close> and \<open>"-5"\<close> are invalid, as the amount must
  be greater than zero, and \<open>"$1,234.50"\<close> is valid with the amount 1234.50, coefficient
  123450 and exponent -2, once the currency sign and the separator are removed.
\<close>

theorem validate_amount_results:
  "(\<exists>is_valid parsed_amount error_message. validate_amount s = Inr (is_valid, parsed_amount, error_message)) \<and>
   validate_amount ''0'' = Inr (False, None, Some ''Amount must be greater than zero'') \<and>
   validate_amount ''-5'' = Inr (False, None, Some ''Amount must be greater than zero'') \<and>
   validate_amount ''$1,234.50'' = Inr (True, Some (Finite False 123450 (- 2)), None)"
proof -
  have "\<exists>is_valid parsed_amount error_message. validate_amount s = Inr (is_valid, parsed_amount, error_message)"
    using validate_amount_structured [of s] by blast
  moreover have "validate_amount ''0'' = Inr (False, None, Some ''Amount must be greater than zero'')"
    by code_simp
  moreover have "validate_amount ''-5'' = Inr (False, None, Some ''Amount must be greater than zero'')"
    by code_simp
  moreover have "validate_amount ''$1,234.50'' = Inr (True, Some (Finite False 123450 (- 2)), None)"
    by code_simp
  ultimately show ?thesis by blast
qed

subsection \<open>Totals by type\<close>

lemma or_zero_sql_sum:
  "or_zero (sql_sum engine_sum xs) = (if xs = [] then 0 else engine_sum xs)"
  by (simp add: or_zero_def sql_sum_def)

lemma window_filter:
  "(let query = rows;
        query = (case start_date of None \<Rightarrow> query
                 | Some s \<Rightarrow> filter (\<lambda>t. dt_key s \<le> dt_key (txn_date t)) query);
        query = (case end_date of None \<Rightarrow> query
                 | Some e \<Rightarrow> filter (\<lambda>t. dt_key (txn_date t) \<le> dt_key e) query)
    in filter P query) = filter (\<lambda>t. in_window start_date end_date t \<and> P t) rows"
  by (cases start_date; cases end_date) (auto simp: in_window_def intro: filter_cong)

lemma get_totals_by_type_eq:
  "get_totals_by_type engine_sum db start_date end_date =
     (or_zero (sql_sum engine_sum (window_amounts db start_date end_date ''income'')),
      or_zero (sql_sum engine_sum (window_amounts db start_date end_date ''expense'')))"
  using window_filter [of "transactions db" start_date end_date "\<lambda>t. txn_type t = ''income''"]
    window_filter [of "transactions db" start_date end_date "\<lambda>t. txn_type t = ''expense''"]
  by (simp add: get_totals_by_type_def window_amounts_def Let_def)

lemma window_amounts_empty:
  "(\<forall>t\<in>set (transactions db). \<not> (in_window start_date end_date t \<and> txn_type t = ty))
     \<Longrightarrow> window_amounts db start_date end_date ty = []"
  by (simp add: window_amounts_def filter_False)

text \<open>
  C4. For every store and every optional window, \<open>get_totals_by_type\<close> returns a pair:
  the total of the amounts of the income transactions in the window and the total of the
  amounts of the expense transactions in the window, each as the aggregate of the storage
  engine gives it; a bound that is absent does not restrict that side; a total is zero
  when no transaction of that type is in the window; and with an engine that adds exactly
  the totals are the sums of the amounts.
\<close>

theorem get_totals_by_type_sums:
  "get_totals_by_type engine_sum db start_date end_date =
     ((if window_amounts db start_date end_date ''income'' = [] then 0
       else engine_sum (window_amounts db start_date end_date ''income'')),
      (if window_amounts db start_date end_date ''expense'' = [] then 0
       else engine_sum (window_amounts db start_date end_date ''expense''))) \<and>
   ((\<forall>t\<in>set (transactions db). \<not> (in_window start_date end_date t \<and> txn_type t = ''income''))
      \<longrightarrow> fst (get_totals_by_type engine_sum db start_date end_date) = 0) \<and>
   ((\<forall>t\<in>set (transactions db). \<not> (in_window start_date end_date t \<and> txn_type t = ''expense''))
      \<longrightarrow> snd (get_totals_by_type engine_sum db start_date end_date) = 0) \<and>
   get_totals_by_type sum_list db start_date end_date =
     (sum_list (window_amounts db start_date end_date ''income''),
      sum_list (window_amounts db start_date end_date ''expense''))"
proof (intro conjI impI)
  show "get_totals_by_type engine_sum db start_date end_date =
     ((if window_amounts db start_date end_date ''income'' = [] then 0
       else engine_sum (window_amounts db start_date end_date ''income'')),
      (if window_amounts db start_date end_date ''expense'' = [] then 0
       else engine_sum (window_amounts db start_date end_date ''expense'')))"
    by (simp only: get_totals_by_type_eq or_zero_sql_sum)
next
  assume "\<forall>t\<in>set (transactions db). \<not> (in_window start_date end_date t \<and> txn_type t = ''income'')"
  then have "window_amounts db start_date end_date ''income'' = []"
    by (rule window_amounts_empty)
  then show "fst (get_totals_by_type engine_sum db start_date end_date) = 0"
    by (simp add: get_totals_by_type_eq or_zero_sql_sum)
next
  assume "\<forall>t\<in>set (transactions db). \<not> (in_window start_date end_date t \<and> txn_type t = ''expense'')"
  then have "window_amounts db start_date end_date ''expense'' = []"
    by (rule window_amounts_empty)
  then show "snd (get_totals_by_type engine_sum db start_date end_date) = 0"
    by (simp add: get_totals_by_type_eq or_zero_sql_sum)
next
  show "get_totals_by_type sum_list db start_date end_date =
     (sum_list (window_amounts db start_date end_date ''income''),
      sum_list (window_amounts db start_date end_date ''expense''))"
    by (simp add: get_totals_by_type_eq or_zero_sql_sum)
qed

theorem get_totals_by_type_sums_witness:
  "window_amounts example_store None None ''income'' = [] \<and>
   window_amounts example_store None None ''expense'' = [4250] \<and>
   get_totals_by_type sum_list example_store None None = (0, 4250) \<and>
   filter (\<lambda>t. in_window (Some \<lparr>day_ord = ymd2ord 2024 4 1, tod = 0\<rparr>) None t)
     (transactions example_store) = [] \<and>
   get_totals_by_type sum_list example_store (Some \<lparr>day_ord = ymd2ord 2024 4 1, tod = 0\<rparr>) None = (0, 0)"
proof -
  let ?april = "Some \<lparr>day_ord = ymd2ord 2024 4 1, tod = 0\<rparr>"
  have a: "window_amounts example_store None None ''income'' = []"
    "window_amounts example_store None None ''expense'' = [4250]"
    by (simp_all add: example_store_def window_amounts_def in_window_def)
  have b: "filter (\<lambda>t. in_window ?april None t) (transactions example_store) = []"
    by (simp add: example_store_def in_window_def dt_key_def ymd2ord_def days_before_year_def
        days_before_month_def DAYS_BEFORE_MONTH_def is_leap_def)
  have a': "\<forall>t\<in>set (transactions example_store). \<not> (in_window None None t \<and> txn_type t = ''income'')"
    by (simp add: example_store_def)
  have b': "\<forall>t\<in>set (transactions example_store). \<not> in_window ?april None t"
    using b by (simp add: filter_empty_conv)
  have "get_totals_by_type sum_list example_store None None = (0, 4250)"
    using get_totals_by_type_sums [of sum_list example_store None None] a' a
    by simp
  moreover have "get_totals_by_type sum_list example_store ?april None = (0, 0)"
    using get_totals_by_type_sums [of sum_list example_store ?april None] b'
    by (simp add: prod_eq_iff)
  ultimately show ?thesis using a b by simp
qed

subsection \<open>Deletion\<close>

text \<open>
  C5. For every store and every id, \<open>delete\<close> of a transaction or of a budget removes the
  row with that id and returns true when there is one, and returns false and leaves the
  store as it is when there is none; no exception is involved.
\<close>

theorem delete_removes_row_or_reports_false:
  "((\<exists>t\<in>set (transactions db). txn_id t = i) \<longrightarrow>
      delete_transaction db i = (db\<lparr>transactions := filter (\<lambda>t. txn_id t \<noteq> i) (transactions db)\<rparr>, True)) \<and>
   ((\<forall>t\<in>set (transactions db). txn_id t \<noteq> i) \<longrightarrow> delete_transaction db i = (db, False)) \<and>
   ((\<exists>b\<in>set (budgets db). budget_id b = i) \<longrightarrow>
      delete_budget db i = (db\<lparr>budgets := filter (\<lambda>b. budget_id b \<noteq> i) (budgets db)\<rparr>, True)) \<and>
   ((\<forall>b\<in>set (budgets db). budget_id b \<noteq> i) \<longrightarrow> delete_budget db i = (db, False))"
proof -
  have f: "find P xs = None \<longleftrightarrow> (\<forall>x\<in>set xs. \<not> P x)" for P :: "'a \<Rightarrow> bool" and xs
    by (auto simp: find_None_iff)
  have g: "find P xs = Some x \<Longrightarrow> P x" for P :: "'a \<Rightarrow> bool" and xs x
    by (auto simp: find_Some_iff)
  have t1: "delete_transaction db i = (db\<lparr>transactions := filter (\<lambda>t. txn_id t \<noteq> i) (transactions db)\<rparr>, True)"
    if "\<exists>t\<in>set (transactions db). txn_id t = i"
  proof (cases "get_by_id db i")
    case None
    with that show ?thesis by (simp add: get_by_id_def f)
  next
    case (Some t)
    then have "txn_id t = i" unfolding get_by_id_def by (rule g)
    with Some show ?thesis by (simp add: delete_transaction_def)
  qed
  have t2: "delete_transaction db i = (db, False)" if "\<forall>t\<in>set (transactions db). txn_id t \<noteq> i"
  proof -
    from that have "get_by_id db i = None" by (simp add: get_by_id_def f)
    then show ?thesis by (simp add: delete_transaction_def)
  qed
  have b1: "delete_budget db i = (db\<lparr>budgets := filter (\<lambda>b. budget_id b \<noteq> i) (budgets db)\<rparr>, True)"
    if "\<exists>b\<in>set (budgets db). budget_id b = i"
  proof (cases "find (\<lambda>b. budget_id b = i) (budgets db)")
    case None
    with that show ?thesis by (simp add: f)
  next
    case (Some b)
    then have "budget_id b = i" by (rule g)
    with Some show ?thesis by (simp add: delete_budget_def)
  qed
  have b2: "delete_budget db i = (db, False)" if "\<forall>b\<in>set (budgets db). budget_id b \<noteq> i"
  proof -
    from that have "find (\<lambda>b. budget_id b = i) (budgets db) = None" by (simp add: f)
    then show ?thesis by (simp add: delete_budget_def)
  qed
  from t1 t2 b1 b2 show ?thesis by blast
qed

theorem delete_removes_row_or_reports_false_witness:
  "map txn_id (transactions example_store) = [1] \<and>
   delete_transaction example_store 1 = (example_store\<lparr>transactions := []\<rparr>, True) \<and>
   delete_transaction example_store 7 = (example_store, False) \<and>
   map budget_id (budgets example_store) = [1] \<and>
   delete_budget example_store 1 = (example_store\<lparr>budgets := []\<rparr>, True) \<and>
   delete_budget example_store 7 = (example_store, False)"
proof -
  have ids: "map txn_id (transactions example_store) = [1]"
    "map budget_id (budgets example_store) = [1]"
    by (simp_all add: example_store_def)
  have h: "\<exists>t\<in>set (transactions example_store). txn_id t = 1"
    "\<forall>t\<in>set (transactions example_store). txn_id t \<noteq> 7"
    "\<exists>b\<in>set (budgets example_store). budget_id b = 1"
    "\<forall>b\<in>set (budgets example_store). budget_id b \<noteq> 7"
    by (simp_all add: example_store_def)
  have e: "filter (\<lambda>t. txn_id t \<noteq> 1) (transactions example_store) = []"
    "filter (\<lambda>b. budget_id b \<noteq> 1) (budgets example_store) = []"
    by (simp_all add: example_store_def)
  show ?thesis
    using delete_removes_row_or_reports_false [of example_store 1]
      delete_removes_row_or_reports_false [of example_store 7] h e ids
    by simp
qed

subsection \<open>The bars of the category chart\<close>

lemma sort_desc_props:
  "mset (sort_key (\<lambda>x. - snd x) d) = mset d"
  "descending (sort_key (\<lambda>x. - snd x) (d :: (string \<times> int) list))"
  "length (sort_key (\<lambda>x. - snd x) d) = length d"
  by (simp_all add: descending_def)

lemma descending_split:
  assumes "descending (kept @ rest)"
  shows "\<forall>x\<in>set kept. \<forall>y\<in>set rest. snd y \<le> snd x"
  using assms by (auto simp: descending_def sorted_append)

text \<open>
  C6. When the category totals have more than 8 entries, the chart keeps the 7 entries with
  the largest amounts, in descending order, and adds an entry \<open>Other\<close> whose amount is
  the sum of the amounts of the remaining entries, provided that this sum is positive; 8
  or fewer entries are only put in descending order, none is merged or added.
\<close>

theorem update_data_rebuckets:
  "(length category_data > 8 \<longrightarrow>
      (\<exists>kept rest. length kept = 7 \<and> mset (kept @ rest) = mset category_data \<and> descending (kept @ rest) \<and>
         (\<forall>x\<in>set kept. \<forall>y\<in>set rest. snd y \<le> snd x) \<and>
         update_data_bars category_data =
           kept @ (if sum_list (map snd rest) > 0 then [(''Other'', sum_list (map snd rest))] else []))) \<and>
   (length category_data \<le> 8 \<longrightarrow>
      mset (update_data_bars category_data) = mset category_data \<and>
      descending (update_data_bars category_data))"
proof (intro conjI impI)
  assume len: "length category_data > 8"
  define sorted_data where "sorted_data = sort_key (\<lambda>x. - snd x) category_data"
  define kept where "kept = take 7 sorted_data"
  define rest where "rest = drop 7 sorted_data"
  have tr: "kept @ rest = sorted_data" by (simp add: kept_def rest_def)
  have l: "length sorted_data = length category_data" by (simp add: sorted_data_def)
  have "length kept = 7" using len l by (simp add: kept_def)
  moreover have "mset (kept @ rest) = mset category_data"
    unfolding tr sorted_data_def by (rule sort_desc_props)
  moreover have d: "descending (kept @ rest)"
    unfolding tr sorted_data_def by (rule sort_desc_props)
  moreover have "\<forall>x\<in>set kept. \<forall>y\<in>set rest. snd y \<le> snd x"
    using d by (rule descending_split)
  moreover have "update_data_bars category_data =
      kept @ (if sum_list (map snd rest) > 0 then [(''Other'', sum_list (map snd rest))] else [])"
    using len l by (simp add: update_data_bars_def sorted_data_def [symmetric] kept_def rest_def Let_def)
  ultimately show "\<exists>kept rest. length kept = 7 \<and> mset (kept @ rest) = mset category_data \<and> descending (kept @ rest) \<and>
         (\<forall>x\<in>set kept. \<forall>y\<in>set rest. snd y \<le> snd x) \<and>
         update_data_bars category_data =
           kept @ (if sum_list (map snd rest) > 0 then [(''Other'', sum_list (map snd rest))] else [])"
    by blast
next
  assume "length category_data \<le> 8"
  then have "update_data_bars category_data = sort_key (\<lambda>x. - snd x) category_data"
    by (simp add: update_data_bars_def Let_def)
  then show "mset (update_data_bars category_data) = mset category_data"
    and "descending (update_data_bars category_data)"
    by (simp_all add: sort_desc_props)
qed

theorem update_data_rebuckets_witness:
  "length nine_categories > 8 \<and>
   update_data_bars nine_categories =
     [(''f'', 9), (''g'', 7), (''b'', 5), (''d'', 5), (''i'', 4), (''c'', 3), (''e'', 2), (''Other'', 2)] \<and>
   length (take 8 nine_categories) \<le> 8 \<and>
   mset (update_data_bars (take 8 nine_categories)) = mset (take 8 nine_categories)"
proof -
  have a: "length nine_categories > 8" "length (take 8 nine_categories) \<le> 8"
    by (simp_all add: nine_categories_def)
  have b: "update_data_bars nine_categories =
     [(''f'', 9), (''g'', 7), (''b'', 5), (''d'', 5), (''i'', 4), (''c'', 3), (''e'', 2), (''Other'', 2)]"
    by code_simp
  from update_data_rebuckets [of "take 8 nine_categories"] a(2)
  have c: "mset (update_data_bars (take 8 nine_categories)) = mset (take 8 nine_categories)"
    by blast
  from update_data_rebuckets [of nine_categories, THEN conjunct1, rule_format, OF a(1)]
  have "\<exists>kept rest. length kept = 7 \<and> mset (kept @ rest) = mset nine_categories"
    by (elim exE conjE) (intro exI conjI)
  with a b c show ?thesis by blast
qed

subsection \<open>Search in the notes\<close>

lemma like_match_percent: "like_match [CHR ''%''] s"
  by (induction s) simp_all

lemma like_match_percent_Cons:
  "like_match (CHR ''%'' # ps) s \<longleftrightarrow> (\<exists>pre r. s = pre @ r \<and> like_match ps r)"
proof (induction s)
  case Nil
  show ?case by (cases ps) auto
next
  case (Cons c cs)
  have "like_match (CHR ''%'' # ps) (c # cs) \<longleftrightarrow>
      like_match ps (c # cs) \<or> like_match (CHR ''%'' # ps) cs"
    by simp
  also have "\<dots> \<longleftrightarrow> like_match ps (c # cs) \<or> (\<exists>pre r. cs = pre @ r \<and> like_match ps r)"
    using Cons.IH by simp
  also have "\<dots> \<longleftrightarrow> (\<exists>pre r. c # cs = pre @ r \<and> like_match ps r)"
    by (auto simp: Cons_eq_append_conv)
  finally show ?case .
qed

lemma like_match_literal:
  "no_wildcard t \<Longrightarrow> like_match (t @ ps) s \<longleftrightarrow> (\<exists>r. s = t @ r \<and> like_match ps r)"
proof (induction t arbitrary: s)
  case Nil
  show ?case by simp
next
  case (Cons a t)
  then have a: "a \<noteq> CHR ''%''" "a \<noteq> CHR ''_''" and t: "no_wildcard t"
    by (auto simp: no_wildcard_def)
  show ?case
  proof (cases s)
    case Nil
    with a show ?thesis by simp
  next
    case (Cons c cs)
    with a Cons.IH [OF t, of cs] show ?thesis by auto
  qed
qed

lemma like_match_contains:
  assumes "no_wildcard t"
  shows "like_match (CHR ''%'' # t @ [CHR ''%'']) s \<longleftrightarrow> sublist t s"
proof -
  have "like_match (CHR ''%'' # t @ [CHR ''%'']) s \<longleftrightarrow>
      (\<exists>pre r. s = pre @ r \<and> (\<exists>post. r = t @ post \<and> like_match [CHR ''%''] post))"
    unfolding like_match_percent_Cons like_match_literal [OF assms] ..
  also have "\<dots> \<longleftrightarrow> (\<exists>pre post. s = pre @ t @ post)"
    by (auto simp: like_match_percent)
  finally show ?thesis by (simp add: sublist_def)
qed

lemma ascii_lower_wildcard:
  "ascii_lower c = CHR ''%'' \<longleftrightarrow> c = CHR ''%''" "ascii_lower c = CHR ''_'' \<longleftrightarrow> c = CHR ''_''"
proof -
  have up: "of_char (ascii_lower c) = of_char c + (32::nat)" if "CHR ''A'' \<le> c" "c \<le> CHR ''Z''"
  proof -
    from that have "of_char c \<le> (90::nat)" by (simp add: less_eq_char_def)
    then have "(of_char c + 32) mod 256 = of_char c + (32::nat)" by simp
    with that show ?thesis by (simp add: ascii_lower_def)
  qed
  show "ascii_lower c = CHR ''%'' \<longleftrightarrow> c = CHR ''%''"
  proof (cases "CHR ''A'' \<le> c \<and> c \<le> CHR ''Z''")
    case True
    then have "of_char (ascii_lower c) \<ge> (97::nat)" using up by (simp add: less_eq_char_def)
    then have "ascii_lower c \<noteq> CHR ''%''" by auto
    moreover from True have "c \<noteq> CHR ''%''" by (auto simp: less_eq_char_def)
    ultimately show ?thesis by simp
  next
    case False
    then have "ascii_lower c = c" unfolding ascii_lower_def by (rule if_not_P)
    then show ?thesis by simp
  qed
  show "ascii_lower c = CHR ''_'' \<longleftrightarrow> c = CHR ''_''"
  proof (cases "CHR ''A'' \<le> c \<and> c \<le> CHR ''Z''")
    case True
    then have "of_char (ascii_lower c) \<ge> (97::nat)" using up by (simp add: less_eq_char_def)
    then have "ascii_lower c \<noteq> CHR ''_''" by auto
    moreover from True have "c \<noteq> CHR ''_''" by (auto simp: less_eq_char_def)
    ultimately show ?thesis by simp
  next
    case False
    then have "ascii_lower c = c" unfolding ascii_lower_def by (rule if_not_P)
    then show ?thesis by simp
  qed
qed

lemma no_wildcard_lower: "no_wildcard (map ascii_lower s) = no_wildcard s"
proof -
  have "CHR ''%'' \<in> ascii_lower ` set s \<longleftrightarrow> CHR ''%'' \<in> set s"
    by (metis ascii_lower_wildcard(1) image_iff)
  moreover have "CHR ''_'' \<in> ascii_lower ` set s \<longleftrightarrow> CHR ''_'' \<in> set s"
    by (metis ascii_lower_wildcard(2) image_iff)
  ultimately show ?thesis by (simp add: no_wildcard_def)
qed

lemma ilike_contains:
  assumes "no_wildcard search_term"
  shows "ilike column (''%'' @ search_term @ ''%'') \<longleftrightarrow>
    (\<exists>v. column = Some v \<and> contains_ci v search_term)"
proof (cases column)
  case None
  then show ?thesis by (simp add: ilike_def)
next
  case (Some v)
  have p: "map ascii_lower (''%'' @ search_term @ ''%'') = CHR ''%'' # map ascii_lower search_term @ [CHR ''%'']"
    by (simp add: ascii_lower_def less_eq_char_def)
  have "no_wildcard (map ascii_lower search_term)"
    using assms by (simp add: no_wildcard_lower)
  then show ?thesis
    unfolding Some ilike_def p contains_ci_def by (simp add: like_match_contains)
qed

lemma order_by_date_desc_props:
  "mset (order_by_date_desc rows) = mset rows"
  "set (order_by_date_desc rows) = set rows"
  "date_descending (order_by_date_desc rows)"
  by (simp_all add: order_by_date_desc_def date_descending_def rev_map [symmetric])

lemma apply_limit_None: "apply_limit None rows = rows"
  by (simp add: apply_limit_def)

lemma set_apply_limit: "set (apply_limit limit rows) \<subseteq> set rows"
  by (auto simp: apply_limit_def split: option.splits dest: in_set_takeD)

lemma search_null_note_never_matches:
  assumes "t \<in> set (search db search_term limit)"
  shows "txn_note t \<noteq> None"
proof -
  have "set (search db search_term limit) \<subseteq> set (order_by_date_desc
      (filter (\<lambda>t. ilike (txn_note t) (''%'' @ search_term @ ''%'')) (transactions db)))"
    unfolding search_def by (rule set_apply_limit)
  with assms have "t \<in> set (order_by_date_desc
      (filter (\<lambda>t. ilike (txn_note t) (''%'' @ search_term @ ''%'')) (transactions db)))"
    by (rule rev_subsetD)
  then have "ilike (txn_note t) (''%'' @ search_term @ ''%'')"
    by (simp add: order_by_date_desc_props(2))
  then show ?thesis by (cases "txn_note t") (simp_all add: ilike_def)
qed

lemma search_without_wildcards:
  assumes "no_wildcard search_term"
  shows "mset (search db search_term None) =
      mset (filter (\<lambda>t. case txn_note t of None \<Rightarrow> False | Some v \<Rightarrow> contains_ci v search_term)
              (transactions db))"
    and "date_descending (search db search_term None)"
proof -
  have "(\<lambda>t. ilike (txn_note t) (''%'' @ search_term @ ''%'')) =
      (\<lambda>t. case txn_note t of None \<Rightarrow> False | Some v \<Rightarrow> contains_ci v search_term)"
  proof (rule ext)
    fix t
    show "ilike (txn_note t) (''%'' @ search_term @ ''%'') =
        (case txn_note t of None \<Rightarrow> False | Some v \<Rightarrow> contains_ci v search_term)"
      unfolding ilike_contains [OF assms] by (simp split: option.splits)
  qed
  then have "filter (\<lambda>t. ilike (txn_note t) (''%'' @ search_term @ ''%'')) (transactions db) =
      filter (\<lambda>t. case txn_note t of None \<Rightarrow> False | Some v \<Rightarrow> contains_ci v search_term) (transactions db)"
    by (rule arg_cong [where f = "\<lambda>P. filter P (transactions db)"])
  then show "mset (search db search_term None) =
      mset (filter (\<lambda>t. case txn_note t of None \<Rightarrow> False | Some v \<Rightarrow> contains_ci v search_term)
              (transactions db))"
    by (simp add: search_def apply_limit_None order_by_date_desc_props(1))
  show "date_descending (search db search_term None)"
    by (simp add: search_def apply_limit_None order_by_date_desc_props(3))
qed


end
